theory Spec2Isabelle
  imports Main
begin

section \<open>Report extraction in \<^verbatim>\<open>gemini_service.py\<close>\<close>

text \<open>
  A shallow embedding of \<^verbatim>\<open>parse_analysis_result\<close>, \<^verbatim>\<open>extract_section\<close> and
  \<^verbatim>\<open>extract_sections_from_content\<close> of
  \<^verbatim>\<open>src/backend/app/services/gemini_service.py\<close>, and of the report-type gate of
  \<^verbatim>\<open>analyze_diagram\<close>.

  Text is a \<^typ>\<open>string\<close>. The character classes are Python's, restricted to ASCII: a
  character above 127 is taken to be neither white space nor a cased letter nor a digit,
  and \<^verbatim>\<open>re.IGNORECASE\<close> identifies the two cases of the 26 letters only. Every
  concrete input below is ASCII.
\<close>

subsection \<open>Characters and the string methods the code calls\<close>

text \<open>White space as \<^verbatim>\<open>str.isspace\<close>, \<^verbatim>\<open>str.strip\<close> and the pattern \<^verbatim>\<open>\s\<close> see it:
  the codes 9 to 13, 28 to 31 and 32.\<close>

definition is_space :: "char \<Rightarrow> bool" where
  "is_space c = (c \<in> set [CHR 0x09, CHR 0x0A, CHR 0x0B, CHR 0x0C, CHR 0x0D,
                            CHR 0x1C, CHR 0x1D, CHR 0x1E, CHR 0x1F, CHR 0x20])"

definition upper_letters :: string where
  "upper_letters = ''ABCDEFGHIJKLMNOPQRSTUVWXYZ''"

definition lower_letters :: string where
  "lower_letters = ''abcdefghijklmnopqrstuvwxyz''"

text \<open>The class \<^verbatim>\<open>[A-Z]\<close>, the letters \<^verbatim>\<open>[a-z]\<close>, and \<^verbatim>\<open>\d\<close>.\<close>

definition is_upper :: "char \<Rightarrow> bool" where
  "is_upper c = (c \<in> set upper_letters)"

definition is_lower :: "char \<Rightarrow> bool" where
  "is_lower c = (c \<in> set lower_letters)"

definition is_digit :: "char \<Rightarrow> bool" where
  "is_digit c = (c \<in> set ''0123456789'')"

definition lower_char :: "char \<Rightarrow> char" where
  "lower_char c =
     (if is_upper c
      then (case map_of (zip upper_letters lower_letters) c of Some d \<Rightarrow> d | None \<Rightarrow> c)
      else c)"

text \<open>\<^verbatim>\<open>s.lower()\<close>, \<^verbatim>\<open>s.strip()\<close>, \<^verbatim>\<open>s.isupper()\<close> (some cased character, and all
  cased characters upper case), \<^verbatim>\<open>s.replace(' ', '_')\<close>.\<close>

definition lower :: "string \<Rightarrow> string" where
  "lower s = map lower_char s"

definition strip :: "string \<Rightarrow> string" where
  "strip s = rev (dropWhile is_space (rev (dropWhile is_space s)))"

definition isupper :: "string \<Rightarrow> bool" where
  "isupper s = (list_ex is_upper s \<and> \<not> list_ex is_lower s)"

definition replace_spaces :: "string \<Rightarrow> string" where
  "replace_spaces s = map (\<lambda>c. if c = CHR '' '' then CHR ''_'' else c) s"

text \<open>\<^verbatim>\<open>text.split('\n')\<close>: never empty; the empty text gives one empty line.\<close>

fun split_lines :: "string \<Rightarrow> string list" where
  "split_lines [] = [[]]"
| "split_lines (c # cs) =
     (if c = CHR 0x0A then [] # split_lines cs
      else (case split_lines cs of [] \<Rightarrow> [[c]] | l # ls \<Rightarrow> (c # l) # ls))"

text \<open>\<^verbatim>\<open>'\n'.join(lines)\<close>.\<close>

fun join_lines :: "string list \<Rightarrow> string" where
  "join_lines [] = []"
| "join_lines [l] = l"
| "join_lines (l # ls) = l @ CHR 0x0A # join_lines ls"

text \<open>\<^verbatim>\<open>s.startswith(p)\<close> and \<^verbatim>\<open>p in s\<close> on strings.\<close>

fun starts_with :: "string \<Rightarrow> string \<Rightarrow> bool" where
  "starts_with [] s = True"
| "starts_with (p # ps) [] = False"
| "starts_with (p # ps) (c # cs) = (p = c \<and> starts_with ps cs)"

fun is_substring :: "string \<Rightarrow> string \<Rightarrow> bool" where
  "is_substring p [] = (p = [])"
| "is_substring p (c # cs) = (starts_with p (c # cs) \<or> is_substring p cs)"

text \<open>\<^verbatim>\<open>str(n)\<close> for a length.\<close>

definition digit_char :: "nat \<Rightarrow> char" where
  "digit_char d = ''0123456789'' ! (d mod 10)"

fun str_of_nat :: "nat \<Rightarrow> string" where
  "str_of_nat n = (if n < 10 then [digit_char n] else str_of_nat (n div 10) @ [digit_char n])"

text \<open>A Python \<^verbatim>\<open>dict\<close> keeps its keys in insertion order, and \<^verbatim>\<open>extract_section\<close>
  reads that order: an association list with distinct keys. \<^verbatim>\<open>d[k] = v\<close> replaces
  the value of a key in place and appends a new key at the end.\<close>

type_synonym ('k, 'v) dict = "('k \<times> 'v) list"

fun dict_set :: "('k, 'v) dict \<Rightarrow> 'k \<Rightarrow> 'v \<Rightarrow> ('k, 'v) dict" where
  "dict_set [] k v = [(k, v)]"
| "dict_set ((k', v') # d) k v =
     (if k' = k then (k, v) # d else (k', v') # dict_set d k v)"

subsection \<open>The heading patterns\<close>

text \<open>\<^verbatim>\<open>heading_regex.match(line)\<close> asks whether one of the four alternatives matches a
  prefix of the line. In each alternative the repeated class and the character that
  follows it are disjoint, so a repetition can only stop where its run ends.

  \<^verbatim>\<open>^#+\s+\<close>: a run of \<^verbatim>\<open>#\<close>, then white space.\<close>

definition match_markdown :: "string \<Rightarrow> bool" where
  "match_markdown s =
     (case s of [] \<Rightarrow> False
      | c # _ \<Rightarrow> c = CHR ''#'' \<and>
          (case dropWhile (\<lambda>d. d = CHR ''#'') s of [] \<Rightarrow> False | w # _ \<Rightarrow> is_space w))"

text \<open>\<^verbatim>\<open>^[A-Z][A-Z\s]+:\<close>: a capital, a non-empty run of capitals and white space, a
  colon.\<close>

definition match_all_caps :: "string \<Rightarrow> bool" where
  "match_all_caps s =
     (case s of [] \<Rightarrow> False
      | c # cs \<Rightarrow> is_upper c \<and>
          (case cs of [] \<Rightarrow> False
           | d # _ \<Rightarrow> (is_upper d \<or> is_space d) \<and>
               (case dropWhile (\<lambda>e. is_upper e \<or> is_space e) cs of
                  [] \<Rightarrow> False | e # _ \<Rightarrow> e = CHR '':'')))"

text \<open>\<^verbatim>\<open>^\d+\.\s+[A-Z]\<close>: digits, a period, white space, a capital.\<close>

definition match_numbered :: "string \<Rightarrow> bool" where
  "match_numbered s =
     (case s of [] \<Rightarrow> False
      | c # _ \<Rightarrow> is_digit c \<and>
          (case dropWhile is_digit s of [] \<Rightarrow> False
           | p # r \<Rightarrow> p = CHR ''.'' \<and>
               (case r of [] \<Rightarrow> False
                | w # _ \<Rightarrow> is_space w \<and>
                    (case dropWhile is_space r of [] \<Rightarrow> False | u # _ \<Rightarrow> is_upper u))))"

text \<open>The common section names of the fourth alternative, in the pattern's order.\<close>

definition common_section_names :: "string list" where
  "common_section_names =
     [''ARCHITECTURE'', ''COMPONENTS'', ''RELIABILITY'', ''SCALABILITY'', ''SECURITY'',
      ''OBSERVABILITY'', ''PERFORMANCE'', ''OPERATIONAL'', ''RECOMMENDATIONS'',
      ''DEPENDENCY'', ''STEADY STATE'', ''HYPOTHESIS'', ''EXPERIMENT'', ''RUMSFELD'',
      ''TEST CASE'', ''BLAST RADIUS'', ''COVERAGE'', ''EXECUTIVE SUMMARY'',
      ''APPLICATION OVERVIEW'', ''REQUIREMENTS'', ''RISK'', ''INCIDENT'', ''ROADMAP'']"

definition match_common_name :: "string \<Rightarrow> bool" where
  "match_common_name s = list_ex (\<lambda>n. starts_with n s) common_section_names"

definition heading_regex_match :: "string \<Rightarrow> bool" where
  "heading_regex_match s =
     (match_markdown s \<or> match_all_caps s \<or> match_numbered s \<or> match_common_name s)"

text \<open>The test of the loop:
  \<^verbatim>\<open>heading_regex.match(line) or (line.strip().isupper() and len(line.strip()) > 3)\<close>.\<close>

definition is_heading :: "string \<Rightarrow> bool" where
  "is_heading line =
     (heading_regex_match line \<or> (isupper (strip line) \<and> length (strip line) > 3))"

subsection \<open>The name of a section\<close>

text \<open>\<^verbatim>\<open>re.sub(r'^#+\s+', '', s)\<close>: both runs are taken whole.\<close>

definition remove_markdown :: "string \<Rightarrow> string" where
  "remove_markdown s =
     (if match_markdown s then dropWhile is_space (dropWhile (\<lambda>d. d = CHR ''#'') s) else s)"

text \<open>\<^verbatim>\<open>re.sub(r':$', '', s)\<close>: \<^verbatim>\<open>$\<close> matches at the end, and before a newline that
  ends the string.\<close>

definition remove_colon :: "string \<Rightarrow> string" where
  "remove_colon s =
     (case rev s of
        [] \<Rightarrow> s
      | c # r \<Rightarrow>
          if c = CHR '':'' then rev r
          else if c = CHR 0x0A then
            (case r of [] \<Rightarrow> s | d # r' \<Rightarrow> if d = CHR '':'' then rev r' @ [c] else s)
          else s)"

text \<open>Lines 706 to 715. \<open>n\<close> is \<^verbatim>\<open>len(sections)\<close> when the heading is read.\<close>

definition heading_name :: "string \<Rightarrow> string" where
  "heading_name line = replace_spaces (remove_colon (remove_markdown (lower (strip line))))"

definition section_name :: "string \<Rightarrow> nat \<Rightarrow> string" where
  "section_name line n =
     (if heading_name line = [] then ''section_'' @ str_of_nat n else heading_name line)"

subsection \<open>The pass over the lines\<close>

text \<open>The three variables of the loop of lines 697 to 719.\<close>

record seg_state =
  sections :: "(string, string) dict"
  current_section :: string
  current_content :: "string list"

text \<open>Lines 701 to 703 and 722 to 723: a buffer that is not empty is stored under the
  current name.\<close>

definition save_section :: "seg_state \<Rightarrow> (string, string) dict" where
  "save_section st =
     (if current_content st \<noteq> []
      then dict_set (sections st) (current_section st) (join_lines (current_content st))
      else sections st)"

definition seg_step :: "seg_state \<Rightarrow> string \<Rightarrow> seg_state" where
  "seg_step st line =
     (if is_heading line then
        (let secs = save_section st in
         \<lparr>sections = secs, current_section = section_name line (length secs),
          current_content = []\<rparr>)
      else st\<lparr>current_content := current_content st @ [line]\<rparr>)"

definition seg_init :: seg_state where
  "seg_init = \<lparr>sections = [], current_section = ''overview'', current_content = []\<rparr>"

text \<open>Lines 696 to 723: the mapping the pass discovers.\<close>

definition segment_lines :: "string list \<Rightarrow> (string, string) dict" where
  "segment_lines ls = save_section (foldl seg_step seg_init ls)"

text \<open>Lines 725 to 727.\<close>

definition line_sections :: "string \<Rightarrow> (string, string) dict" where
  "line_sections text =
     (let secs = segment_lines (split_lines text) in
      if secs = [] then [(''full_text'', text)] else secs)"

subsection \<open>The keyword fallback\<close>

text \<open>The three keyword lists of \<^verbatim>\<open>extract_sections_from_content\<close> and their
  concatenation.\<close>

definition system_analysis_keywords :: "string list" where
  "system_analysis_keywords =
     [''architecture'', ''components'', ''reliability'', ''scalability'', ''security'',
      ''observability'', ''performance'', ''operational'', ''recommendations'']"

definition destructive_testing_keywords :: "string list" where
  "destructive_testing_keywords =
     [''dependency'', ''dependencies'', ''steady state'', ''hypothesis'', ''experiment'',
      ''rumsfeld'', ''test case'', ''blast radius'', ''coverage'']"

definition prr_keywords :: "string list" where
  "prr_keywords =
     [''executive summary'', ''application overview'', ''reliability requirements'',
      ''risk assessment'', ''observability strategy'', ''destructive testing'',
      ''incident response'', ''reliability roadmap'']"

definition all_keywords :: "string list" where
  "all_keywords = system_analysis_keywords @ destructive_testing_keywords @ prr_keywords"

text \<open>A keyword of the pattern against the text under \<^verbatim>\<open>re.IGNORECASE\<close>: character by
  character, up to case.\<close>

fun ci_starts_with :: "string \<Rightarrow> string \<Rightarrow> bool" where
  "ci_starts_with [] s = True"
| "ci_starts_with (p # ps) [] = False"
| "ci_starts_with (p # ps) (c # cs) = (lower_char p = lower_char c \<and> ci_starts_with ps cs)"

text \<open>The pattern \<^verbatim>\<open>(keyword:?)[^\n]*\n\<close> tried at the start of \<open>s\<close>: the length of
  the match, if there is one. After the keyword the match runs to the first newline and
  takes it, with or without a colon; a keyword holds no newline. The pattern has no
  anchor.\<close>

definition kw_match :: "string \<Rightarrow> string \<Rightarrow> nat option" where
  "kw_match keyword s =
     (if ci_starts_with keyword s then
        (if CHR 0x0A \<in> set (drop (length keyword) s)
         then Some (length keyword
                    + length (takeWhile (\<lambda>c. c \<noteq> CHR 0x0A) (drop (length keyword) s)) + 1)
         else None)
      else None)"

text \<open>\<^verbatim>\<open>pattern.finditer(text)\<close>: the spans (start, end) of the matches, left to right,
  the scan resuming where a match ends. \<open>finditer keyword pos s\<close> scans \<open>s\<close>, the text
  from position \<open>pos\<close> on; the call of line 861 is \<open>finditer keyword 0 text\<close>.\<close>

function finditer :: "string \<Rightarrow> nat \<Rightarrow> string \<Rightarrow> (nat \<times> nat) list" where
  "finditer keyword pos [] = []"
| "finditer keyword pos (c # cs) =
     (case kw_match keyword (c # cs) of
        Some n \<Rightarrow> (pos, pos + n) # finditer keyword (pos + n) (drop n (c # cs))
      | None \<Rightarrow> finditer keyword (pos + 1) cs)"
  by pat_completeness auto
termination
  by (relation "measure (\<lambda>(keyword, pos, s). length s)")
     (auto simp: kw_match_def split: if_splits)

text \<open>\<^verbatim>\<open>next_pattern.search(text, start_pos)\<close>: where the first match at or after
  \<open>start_pos\<close> starts. \<open>search keyword pos s\<close> scans \<open>s\<close>, the text from position
  \<open>pos\<close> on.\<close>

fun search :: "string \<Rightarrow> nat \<Rightarrow> string \<Rightarrow> nat option" where
  "search keyword pos [] = None"
| "search keyword pos (c # cs) =
     (case kw_match keyword (c # cs) of
        Some n \<Rightarrow> Some pos
      | None \<Rightarrow> search keyword (pos + 1) cs)"

text \<open>Lines 868 to 873: the loop over \<^verbatim>\<open>all_keywords\<close> that lowers \<^verbatim>\<open>end_pos\<close> to the
  least start of a match at or after \<open>start_pos\<close>. \<open>s\<close> is the text from \<open>start_pos\<close>
  on.\<close>

fun section_end_loop :: "nat \<Rightarrow> string \<Rightarrow> string list \<Rightarrow> nat \<Rightarrow> nat" where
  "section_end_loop start_pos s [] end_pos = end_pos"
| "section_end_loop start_pos s (next_keyword # keywords) end_pos =
     section_end_loop start_pos s keywords
       (case search next_keyword start_pos s of
          Some p \<Rightarrow> if p < end_pos then p else end_pos
        | None \<Rightarrow> end_pos)"

definition section_end :: "string \<Rightarrow> nat \<Rightarrow> nat" where
  "section_end text start_pos =
     section_end_loop start_pos (drop start_pos text) all_keywords (length text)"

text \<open>\<^verbatim>\<open>text[a:b]\<close> for positions within the text.\<close>

definition slice :: "string \<Rightarrow> nat \<Rightarrow> nat \<Rightarrow> string" where
  "slice text a b = take (b - a) (drop a text)"

text \<open>Line 876 and line 879.\<close>

definition section_content :: "string \<Rightarrow> nat \<Rightarrow> string" where
  "section_content text start_pos = strip (slice text start_pos (section_end text start_pos))"

definition section_key :: "string \<Rightarrow> string" where
  "section_key keyword = replace_spaces (lower keyword)"

text \<open>The loop over the matches of one keyword (lines 863 to 880); a match is its span,
  and \<^verbatim>\<open>start_pos\<close> is where it ends.\<close>

fun add_matches ::
  "string \<Rightarrow> string \<Rightarrow> (nat \<times> nat) list \<Rightarrow> (string, string) dict \<Rightarrow> (string, string) dict"
  where
  "add_matches text keyword [] secs = secs"
| "add_matches text keyword ((start, start_pos) # matches) secs =
     add_matches text keyword matches
       (dict_set secs (section_key keyword) (section_content text start_pos))"

text \<open>The loop over the keywords (lines 858 to 880), and the function.\<close>

fun keyword_loop :: "string \<Rightarrow> string list \<Rightarrow> (string, string) dict \<Rightarrow> (string, string) dict"
  where
  "keyword_loop text [] secs = secs"
| "keyword_loop text (keyword # keywords) secs =
     keyword_loop text keywords (add_matches text keyword (finditer keyword 0 text) secs)"

definition extract_sections_from_content :: "string \<Rightarrow> (string, string) dict" where
  "extract_sections_from_content text = keyword_loop text all_keywords []"

subsection \<open>The mapper\<close>

text \<open>\<^verbatim>\<open>extract_section\<close>: for each possible key in turn, the body of the first section,
  in the order of the dictionary, whose name contains it.\<close>

fun extract_section :: "(string, string) dict \<Rightarrow> string list \<Rightarrow> string" where
  "extract_section secs [] = []"
| "extract_section secs (key # keys) =
     (case find (\<lambda>(name, body). is_substring key name) secs of
        Some (name, body) \<Rightarrow> body
      | None \<Rightarrow> extract_section secs keys)"

text \<open>The three dictionary literals of lines 735 to 744, 764 to 773 and 793 to 802: each
  field with the possible keys handed to \<^verbatim>\<open>extract_section\<close>.\<close>

definition system_analysis_fields :: "(string \<times> string list) list" where
  "system_analysis_fields =
     [(''components'', [''components'', ''architecture_component'', ''component_analysis'',
                        ''architecture'']),
      (''reliability'', [''reliability'', ''reliability_assessment'', ''spof'',
                         ''single_points_of_failure'']),
      (''scalability'', [''scalability'', ''scalability_analysis'', ''scaling'']),
      (''security'', [''security'', ''security_evaluation'', ''authentication'',
                      ''authorization'']),
      (''observability'', [''observability'', ''observability_assessment'', ''monitoring'',
                           ''logging'']),
      (''performance'', [''performance'', ''performance_considerations'', ''latency'',
                         ''throughput'']),
      (''operational_complexity'', [''operational_complexity'', ''operations'',
                                    ''deployment'', ''maintenance'']),
      (''recommendations'', [''recommendations'', ''improvements'', ''suggested'',
                             ''enhancement''])]"

definition destructive_testing_fields :: "(string \<times> string list) list" where
  "destructive_testing_fields =
     [(''dependency_analysis'', [''dependency_analysis'', ''dependencies'',
                                 ''interconnections'']),
      (''steady_state_definition'', [''steady_state_definition'', ''steady_state'', ''sli'',
                                     ''slo'']),
      (''hypothesis_generation'', [''hypothesis_generation'', ''hypotheses'', ''hypothesis'']),
      (''experiment_design'', [''experiment_design'', ''experiments'', ''test_cases'',
                               ''chaos_testing'']),
      (''rumsfeld_matrix'', [''rumsfeld_matrix'', ''known_unknowns'', ''unknown_unknowns'']),
      (''test_case_management'', [''test_case_management'', ''test_cases'', ''litmus_chaos'']),
      (''blast_radius_analysis'', [''blast_radius_analysis'', ''blast_radius'',
                                   ''impact_scope'']),
      (''coverage'', [''coverage'', ''complete_coverage'', ''test_coverage''])]"

definition prr_fields :: "(string \<times> string list) list" where
  "prr_fields =
     [(''executive_summary'', [''executive_summary'', ''summary'', ''overview'']),
      (''application_overview'', [''application_overview'', ''application'', ''overview'']),
      (''reliability_requirements'', [''reliability_requirements'', ''requirements'', ''slo'',
                                      ''availability'']),
      (''risk_assessment'', [''risk_assessment'', ''risks'', ''vulnerabilities'', ''spof'']),
      (''observability_strategy'', [''observability_strategy'', ''observability'',
                                    ''monitoring'', ''logging'']),
      (''destructive_testing_results'', [''destructive_testing_results'', ''testing_results'',
                                         ''chaos_testing'']),
      (''incident_response'', [''incident_response'', ''response'', ''escalation'',
                               ''runbook'']),
      (''reliability_roadmap'', [''reliability_roadmap'', ''roadmap'', ''improvements''])]"

text \<open>The first literal of a branch, evaluated on the sections.\<close>

definition structured_fields ::
  "(string \<times> string list) list \<Rightarrow> (string, string) dict \<Rightarrow> (string, string) dict" where
  "structured_fields flds secs = map (\<lambda>(field, keys). (field, extract_section secs keys)) flds"

text \<open>The second literal of a branch: the text under the first field, the empty string
  under the others.\<close>

definition raw_text_fields ::
  "(string \<times> string list) list \<Rightarrow> string \<Rightarrow> (string, string) dict" where
  "raw_text_fields flds text =
     (case flds of
        [] \<Rightarrow> []
      | (field, keys) # rest \<Rightarrow> (field, text) # map (\<lambda>(g, keys'). (g, [])) rest)"

text \<open>\<^verbatim>\<open>any(structured_data.values())\<close>: some value is a non-empty string.\<close>

definition any_value :: "(string, string) dict \<Rightarrow> bool" where
  "any_value d = list_ex (\<lambda>(field, v). v \<noteq> []) d"

text \<open>A value of the returned dictionary: a string, or the dictionary of sections.\<close>

datatype pyvalue = Str string | Dict "(string, string) dict"

text \<open>The test that opens each branch (lines 732, 761 and 790): with at most one section
  the keyword fallback replaces the mapping.\<close>

definition fallback_sections :: "string \<Rightarrow> (string, string) dict \<Rightarrow> (string, string) dict" where
  "fallback_sections text secs =
     (if length secs \<le> 1 then extract_sections_from_content text else secs)"

text \<open>One branch of lines 730 to 815, and line 821. The three branches differ in their
  literals only.\<close>

definition structured_branch ::
  "(string \<times> string list) list \<Rightarrow> string \<Rightarrow> (string, string) dict \<Rightarrow> (string, pyvalue) dict"
  where
  "structured_branch flds text secs0 =
     (let secs = fallback_sections text secs0;
          structured_data = structured_fields flds secs;
          structured_data' =
            (if \<not> any_value structured_data then raw_text_fields flds text
             else structured_data)
      in dict_set (map (\<lambda>(field, v). (field, Str v)) structured_data') ''sections'' (Dict secs))"

text \<open>\<^verbatim>\<open>AnalysisType\<close> is a \<^verbatim>\<open>str\<close> enumeration: a member is equal to its value, and
  both functions have a branch for a tag that is none of the three.\<close>

type_synonym AnalysisType = string

definition SYSTEM_ANALYSIS :: AnalysisType where
  "SYSTEM_ANALYSIS = ''system_analysis''"

definition DESTRUCTIVE_TESTING :: AnalysisType where
  "DESTRUCTIVE_TESTING = ''destructive_testing''"

definition PRR :: AnalysisType where
  "PRR = ''prr''"

definition parse_analysis_result :: "string \<Rightarrow> AnalysisType \<Rightarrow> (string, pyvalue) dict" where
  "parse_analysis_result text analysis_type =
     (if text = [] then [(''text'', Str ''No analysis data available'')]
      else
        (let secs = line_sections text in
         if analysis_type = SYSTEM_ANALYSIS then structured_branch system_analysis_fields text secs
         else if analysis_type = DESTRUCTIVE_TESTING
           then structured_branch destructive_testing_fields text secs
         else if analysis_type = PRR then structured_branch prr_fields text secs
         else dict_set [(''text'', Str text)] ''sections'' (Dict secs)))"

subsection \<open>\<^verbatim>\<open>analyze_diagram\<close>\<close>

text \<open>\<^verbatim>\<open>analyze_diagram\<close> opens the image (line 574), chooses the prompt by the report
  type and raises \<^verbatim>\<open>ValueError\<close> for a tag that is none of the three (lines 577 to
  584), builds the prompt with the description and calls the external model on it and on
  the image (lines 586 to 605), and parses the reply (line 610). Any exception is logged
  and raised again (lines 615 to 617).

  Opening the image and calling the external model are outside the program: their
  outcomes are the parameters \<open>image_open\<close> (the image, or the exception of
  \<^verbatim>\<open>Image.open\<close>) and \<open>generate\<close> (the text of the reply for a prompt, a description
  and an image, or the exception of the call). The prompts are named, not spelled out.\<close>

datatype error = ValueError string | Exception string

datatype prompt = SYSTEM_ANALYSIS_PROMPT | DESTRUCTIVE_TESTING_PROMPT | PRR_PROMPT

text \<open>Lines 577 to 584.\<close>

definition select_prompt :: "AnalysisType \<Rightarrow> error + prompt" where
  "select_prompt analysis_type =
     (if analysis_type = SYSTEM_ANALYSIS then Inr SYSTEM_ANALYSIS_PROMPT
      else if analysis_type = DESTRUCTIVE_TESTING then Inr DESTRUCTIVE_TESTING_PROMPT
      else if analysis_type = PRR then Inr PRR_PROMPT
      else Inl (ValueError (''Unsupported analysis type: '' @ analysis_type)))"

record analysis =
  raw_text :: string
  structured_data :: "(string, pyvalue) dict"

definition analyze_diagram ::
  "error + 'image \<Rightarrow> (prompt \<Rightarrow> string option \<Rightarrow> 'image \<Rightarrow> error + string) \<Rightarrow>
   AnalysisType \<Rightarrow> string option \<Rightarrow> error + analysis" where
  "analyze_diagram image_open generate analysis_type description =
     (case image_open of
        Inl e \<Rightarrow> Inl e
      | Inr img \<Rightarrow>
          (case select_prompt analysis_type of
             Inl e \<Rightarrow> Inl e
           | Inr prompt \<Rightarrow>
               (case generate prompt description img of
                  Inl e \<Rightarrow> Inl e
                | Inr result_text \<Rightarrow>
                    Inr \<lparr>raw_text = result_text,
                         structured_data = parse_analysis_result result_text analysis_type\<rparr>)))"

subsection \<open>Notions used to state the properties\<close>

text \<open>The sections the mapper reads: the mapping of the pass over the lines, or the
  keyword fallback's.\<close>

definition discovered_sections :: "string \<Rightarrow> (string, string) dict" where
  "discovered_sections text = fallback_sections text (line_sections text)"

text \<open>No possible key of any field occurs in the name of any section.\<close>

definition no_synonym_matches ::
  "(string \<times> string list) list \<Rightarrow> (string, string) dict \<Rightarrow> bool" where
  "no_synonym_matches flds secs =
     list_all (\<lambda>(field, keys).
       list_all (\<lambda>key. list_all (\<lambda>(name, body). \<not> is_substring key name) secs) keys) flds"

text \<open>A keyword occurs somewhere in a text, case ignored.\<close>

fun ci_occurs :: "string \<Rightarrow> string \<Rightarrow> bool" where
  "ci_occurs keyword [] = ci_starts_with keyword []"
| "ci_occurs keyword (c # cs) = (ci_starts_with keyword (c # cs) \<or> ci_occurs keyword cs)"

text \<open>The number of lines of a body, and of all bodies of a mapping.\<close>

definition line_count :: "string \<Rightarrow> nat" where
  "line_count body = length (split_lines body)"

definition body_line_count :: "(string, string) dict \<Rightarrow> nat" where
  "body_line_count secs = sum_list (map (\<lambda>(name, body). line_count body) secs)"

text \<open>The parts of a line that lines 706 to 712 tell apart: leading white space, a
  marker (a run of \<^verbatim>\<open>#\<close> and the white space after it) or none, the core, a colon
  or none, trailing white space. The conditions leave one way to cut a line: the core
  with the colon neither starts nor ends with white space, no marker is left in front of
  it, and no colon is left at its end.\<close>

definition name_parts :: "string \<Rightarrow> string \<Rightarrow> string \<Rightarrow> string \<Rightarrow> string \<Rightarrow> bool" where
  "name_parts lead marker core colon trail \<longleftrightarrow>
     list_all is_space lead \<and> list_all is_space trail
     \<and> (marker = [] \<and> \<not> match_markdown (core @ colon)
        \<or> (\<exists>m gap. 0 < m \<and> gap \<noteq> [] \<and> list_all is_space gap
                    \<and> marker = replicate m CHR ''#'' @ gap) \<and> core @ colon \<noteq> [])
     \<and> (colon = '':'' \<or> colon = [] \<and> (core = [] \<or> last core \<noteq> CHR '':''))
     \<and> (core @ colon = [] \<or> \<not> is_space (hd (core @ colon)) \<and> \<not> is_space (last (core @ colon)))"

text \<open>Two states of the pass agree but for the value stored under \<^verbatim>\<open>overview\<close>, the
  first key of both.\<close>

definition same_but_overview :: "seg_state \<Rightarrow> seg_state \<Rightarrow> bool" where
  "same_but_overview st st' \<longleftrightarrow>
     current_section st = current_section st' \<and> current_content st = current_content st' \<and>
     (\<exists>v v' d. sections st = (''overview'', v) # d \<and> sections st' = (''overview'', v') # d)"

text \<open>The values of the entries of a result whose key is \<^verbatim>\<open>sections\<close>, in their
  order.\<close>

definition sections_entries :: "(string, pyvalue) dict \<Rightarrow> pyvalue list" where
  "sections_entries result = map snd (filter (\<lambda>entry. fst entry = ''sections'') result)"

text \<open>The example input of a report without headings.\<close>

definition no_heading_example :: string where
  "no_heading_example =
     ''dependency: payment service calls auth service\<newline>hypothesis: auth outage causes payment failure\<newline>''"

section \<open>Properties\<close>

subsection \<open>Evaluation\<close>

text \<open>The class \<^verbatim>\<open>[A-Z]\<close> read off the bits of a character, for evaluation: the
  codes 65 to 90.\<close>

lemma is_upper_bits [code]:
  "is_upper (Char b0 b1 b2 b3 b4 b5 b6 b7) =
     (b6 \<and> \<not> b5 \<and> \<not> b7 \<and> (b0 \<or> b1 \<or> b2 \<or> b3 \<or> b4)
      \<and> \<not> (b3 \<and> b4 \<and> (b2 \<or> (b0 \<and> b1))))"
  unfolding is_upper_def upper_letters_def
  by (cases b0; cases b1; cases b2; cases b3; cases b4; cases b5; cases b6; cases b7; simp)

subsection \<open>The empty input\<close>

text \<open>C3, as the code has it: for the empty string, whatever the report type, line 675
  returns the mapping with the single entry \<^verbatim>\<open>text\<close>; it holds no canonical field and
  no \<^verbatim>\<open>sections\<close> entry.\<close>

theorem empty_input_result:
  "parse_analysis_result [] analysis_type = [(''text'', Str ''No analysis data available'')]"
  by (simp add: parse_analysis_result_def)

text \<open>C3 as stated fails: for the empty string under \<^verbatim>\<open>SYSTEM_ANALYSIS\<close> the result has
  neither the field \<^verbatim>\<open>components\<close> nor a \<^verbatim>\<open>sections\<close> entry.\<close>

theorem empty_input_counterexample:
  "map_of (parse_analysis_result [] SYSTEM_ANALYSIS) ''components'' = None
   \<and> map_of (parse_analysis_result [] SYSTEM_ANALYSIS) ''sections'' = None"
  by (simp add: parse_analysis_result_def)

subsection \<open>The keys of the result\<close>

lemma dict_set_fresh: "k \<notin> fst ` set d \<Longrightarrow> dict_set d k v = d @ [(k, v)]"
  by (induction d) auto

lemma map_fst_structured_fields: "map fst (structured_fields flds secs) = map fst flds"
  by (simp add: structured_fields_def case_prod_unfold)

lemma map_fst_raw_text_fields: "map fst (raw_text_fields flds text) = map fst flds"
  by (cases flds) (auto simp: raw_text_fields_def case_prod_unfold)

lemma structured_branch_shape:
  assumes "''sections'' \<notin> set (map fst flds)"
  shows "\<exists>vals. length vals = length flds \<and>
           structured_branch flds text secs0 =
             zip (map fst flds) (map Str vals) @ [(''sections'', Dict (fallback_sections text secs0))]"
proof -
  define sd where "sd = (if \<not> any_value (structured_fields flds (fallback_sections text secs0))
      then raw_text_fields flds text else structured_fields flds (fallback_sections text secs0))"
  have keys: "map fst sd = map fst flds"
    by (simp add: sd_def map_fst_structured_fields map_fst_raw_text_fields)
  have m: "map (\<lambda>(field, v). (field, Str v)) sd = zip (map fst flds) (map Str (map snd sd))"
    unfolding keys [symmetric] by (induction sd) auto
  have fresh: "''sections'' \<notin> fst ` set (map (\<lambda>(field, v). (field, Str v)) sd)"
    using assms keys [symmetric] by (force simp: image_iff)
  have "structured_branch flds text secs0 =
          dict_set (map (\<lambda>(field, v). (field, Str v)) sd) ''sections'' (Dict (fallback_sections text secs0))"
    by (simp add: structured_branch_def sd_def Let_def)
  also have "\<dots> = map (\<lambda>(field, v). (field, Str v)) sd @ [(''sections'', Dict (fallback_sections text secs0))]"
    using fresh by (rule dict_set_fresh)
  finally have "structured_branch flds text secs0 =
      zip (map fst flds) (map Str (map snd sd)) @ [(''sections'', Dict (fallback_sections text secs0))]"
    using m by simp
  moreover have "length (map snd sd) = length flds"
    using keys by (metis length_map)
  ultimately show ?thesis by blast
qed

lemma tags_distinct:
  "SYSTEM_ANALYSIS \<noteq> DESTRUCTIVE_TESTING" "SYSTEM_ANALYSIS \<noteq> PRR" "DESTRUCTIVE_TESTING \<noteq> PRR"
  by (simp_all add: SYSTEM_ANALYSIS_def DESTRUCTIVE_TESTING_def PRR_def)

text \<open>C2, as the code has it: for every non-empty text and each of the three report types
  the result holds, in this order, the eight canonical fields of the type, each with a
  string, and then the entry \<^verbatim>\<open>sections\<close> with the dictionary of the sections the
  mapper read; it holds nothing else.\<close>

theorem canonical_keys:
  assumes "text \<noteq> []"
  shows "(\<exists>vals. length vals = 8 \<and>
            parse_analysis_result text SYSTEM_ANALYSIS =
              zip [''components'', ''reliability'', ''scalability'', ''security'', ''observability'',
                   ''performance'', ''operational_complexity'', ''recommendations'']
                  (map Str vals)
              @ [(''sections'', Dict (discovered_sections text))])
       \<and> (\<exists>vals. length vals = 8 \<and>
            parse_analysis_result text DESTRUCTIVE_TESTING =
              zip [''dependency_analysis'', ''steady_state_definition'', ''hypothesis_generation'',
                   ''experiment_design'', ''rumsfeld_matrix'', ''test_case_management'',
                   ''blast_radius_analysis'', ''coverage'']
                  (map Str vals)
              @ [(''sections'', Dict (discovered_sections text))])
       \<and> (\<exists>vals. length vals = 8 \<and>
            parse_analysis_result text PRR =
              zip [''executive_summary'', ''application_overview'', ''reliability_requirements'',
                   ''risk_assessment'', ''observability_strategy'', ''destructive_testing_results'',
                   ''incident_response'', ''reliability_roadmap'']
                  (map Str vals)
              @ [(''sections'', Dict (discovered_sections text))])"
proof -
  have s: "''sections'' \<notin> set (map fst system_analysis_fields)"
    by (simp add: system_analysis_fields_def)
  have d: "''sections'' \<notin> set (map fst destructive_testing_fields)"
    by (simp add: destructive_testing_fields_def)
  have p: "''sections'' \<notin> set (map fst prr_fields)"
    by (simp add: prr_fields_def)
  have 1: "parse_analysis_result text SYSTEM_ANALYSIS =
             structured_branch system_analysis_fields text (line_sections text)"
    using assms by (simp add: parse_analysis_result_def Let_def)
  have 2: "parse_analysis_result text DESTRUCTIVE_TESTING =
             structured_branch destructive_testing_fields text (line_sections text)"
    using assms tags_distinct by (simp add: parse_analysis_result_def Let_def)
  have 3: "parse_analysis_result text PRR = structured_branch prr_fields text (line_sections text)"
    using assms tags_distinct by (simp add: parse_analysis_result_def Let_def)
  have a: "\<exists>vals. length vals = length system_analysis_fields \<and>
      structured_branch system_analysis_fields text (line_sections text) =
        zip (map fst system_analysis_fields) (map Str vals)
        @ [(''sections'', Dict (fallback_sections text (line_sections text)))]"
    by (rule structured_branch_shape [OF s])
  have b: "\<exists>vals. length vals = length destructive_testing_fields \<and>
      structured_branch destructive_testing_fields text (line_sections text) =
        zip (map fst destructive_testing_fields) (map Str vals)
        @ [(''sections'', Dict (fallback_sections text (line_sections text)))]"
    by (rule structured_branch_shape [OF d])
  have c: "\<exists>vals. length vals = length prr_fields \<and>
      structured_branch prr_fields text (line_sections text) =
        zip (map fst prr_fields) (map Str vals)
        @ [(''sections'', Dict (fallback_sections text (line_sections text)))]"
    by (rule structured_branch_shape [OF p])
  have a': "length system_analysis_fields = 8 \<and> map fst system_analysis_fields =
      [''components'', ''reliability'', ''scalability'', ''security'', ''observability'',
       ''performance'', ''operational_complexity'', ''recommendations'']"
    by (simp add: system_analysis_fields_def)
  have b': "length destructive_testing_fields = 8 \<and> map fst destructive_testing_fields =
      [''dependency_analysis'', ''steady_state_definition'', ''hypothesis_generation'',
       ''experiment_design'', ''rumsfeld_matrix'', ''test_case_management'',
       ''blast_radius_analysis'', ''coverage'']"
    by (simp add: destructive_testing_fields_def)
  have c': "length prr_fields = 8 \<and> map fst prr_fields =
      [''executive_summary'', ''application_overview'', ''reliability_requirements'',
       ''risk_assessment'', ''observability_strategy'', ''destructive_testing_results'',
       ''incident_response'', ''reliability_roadmap'']"
    by (simp add: prr_fields_def)
  show ?thesis
    using a b c unfolding 1 2 3 discovered_sections_def
    by (simp only: a' b' c')
qed

text \<open>The theorem at the text \<^verbatim>\<open>ok\<close>, for the report type \<^verbatim>\<open>PRR\<close>.\<close>

theorem canonical_keys_witness:
  "(\<exists>vals. length vals = 8 \<and>
            parse_analysis_result ''ok'' PRR =
              zip [''executive_summary'', ''application_overview'', ''reliability_requirements'',
                   ''risk_assessment'', ''observability_strategy'', ''destructive_testing_results'',
                   ''incident_response'', ''reliability_roadmap'']
                  (map Str vals)
              @ [(''sections'', Dict (discovered_sections ''ok''))])"
  using canonical_keys [of "''ok''"] by simp

text \<open>C2 as stated fails at the empty string: the only key of the result is
  \<^verbatim>\<open>text\<close>.\<close>

theorem canonical_keys_counterexample:
  "map fst (parse_analysis_result [] SYSTEM_ANALYSIS) = [''text'']"
  by (simp add: parse_analysis_result_def)

subsection \<open>The report type\<close>

text \<open>An image that cannot be opened fails the call before the report type is looked
  at.\<close>

lemma analyze_diagram_image_error:
  "analyze_diagram (Inl e) generate analysis_type description = Inl e"
  by (simp add: analyze_diagram_def)

text \<open>\<^verbatim>\<open>parse_analysis_result\<close> itself has a branch for a tag that is none of the three
  (lines 817 to 821); \<^verbatim>\<open>analyze_diagram\<close>, its only caller, never reaches it.\<close>

lemma parse_unrecognized_tag:
  "analysis_type \<notin> {SYSTEM_ANALYSIS, DESTRUCTIVE_TESTING, PRR} \<Longrightarrow> text \<noteq> [] \<Longrightarrow>
   parse_analysis_result text analysis_type =
     [(''text'', Str text), (''sections'', Dict (line_sections text))]"
  by (simp add: parse_analysis_result_def Let_def)



subsection \<open>The name of a heading\<close>

lemma upper_lower_char: "is_upper c \<Longrightarrow> is_lower (lower_char c)"
  by (auto simp: is_upper_def upper_letters_def lower_char_def is_lower_def lower_letters_def)

lemma upper_not_lower: "is_upper c \<Longrightarrow> \<not> is_lower c"
  by (auto simp: is_upper_def upper_letters_def is_lower_def lower_letters_def)

lemma lower_char_other: "\<not> is_upper c \<Longrightarrow> lower_char c = c"
  by (simp add: lower_char_def)

lemma lower_char_eq_uncased:
  assumes "\<not> is_upper t" "\<not> is_lower t"
  shows "lower_char c = t \<longleftrightarrow> c = t"
proof (cases "is_upper c")
  case True
  then have "lower_char c \<noteq> t" "c \<noteq> t"
    using assms upper_lower_char by auto
  then show ?thesis by simp
next
  case False
  then show ?thesis by (simp add: lower_char_other)
qed

lemma space_uncased: "is_space t \<Longrightarrow> \<not> is_upper t \<and> \<not> is_lower t"
  by (auto simp: is_space_def is_upper_def upper_letters_def is_lower_def lower_letters_def)

lemma is_space_lower_char: "is_space (lower_char c) \<longleftrightarrow> is_space c"
proof (cases "is_upper c")
  case True
  then show ?thesis using upper_lower_char [OF True] space_uncased by blast
next
  case False
  then show ?thesis by (simp add: lower_char_other)
qed

lemma lower_char_hash: "lower_char c = CHR ''#'' \<longleftrightarrow> c = CHR ''#''"
  by (rule lower_char_eq_uncased)
     (simp_all add: is_upper_def upper_letters_def is_lower_def lower_letters_def)

lemma lower_char_colon: "lower_char c = CHR '':'' \<longleftrightarrow> c = CHR '':''"
  by (rule lower_char_eq_uncased)
     (simp_all add: is_upper_def upper_letters_def is_lower_def lower_letters_def)

lemma lower_space: "list_all is_space s \<Longrightarrow> lower s = s"
  by (induction s) (auto simp: lower_def lower_char_other dest: space_uncased)

lemma lower_append: "lower (a @ b) = lower a @ lower b"
  by (simp add: lower_def)

lemma lower_hashes: "lower (replicate m CHR ''#'') = replicate m CHR ''#''"
  by (simp add: lower_def lower_char_def is_upper_def upper_letters_def)

lemma match_markdown_lower: "match_markdown (lower s) \<longleftrightarrow> match_markdown s"
proof -
  have d: "dropWhile (\<lambda>d. d = CHR ''#'') (map lower_char s) =
           map lower_char (dropWhile (\<lambda>d. d = CHR ''#'') s)"
    by (simp add: dropWhile_map comp_def lower_char_hash)
  show ?thesis
    unfolding match_markdown_def lower_def d
    by (cases s; cases "dropWhile (\<lambda>d. d = CHR ''#'') s")
       (simp_all add: lower_char_hash is_space_lower_char)
qed

lemma dropWhile_skip: "list_all P xs \<Longrightarrow> \<not> P y \<Longrightarrow> dropWhile P (xs @ y # ys) = y # ys"
  by (induction xs) auto

lemma strip_exact:
  assumes "list_all is_space lead" "list_all is_space trail"
    and "s = [] \<or> \<not> is_space (hd s) \<and> \<not> is_space (last s)"
  shows "strip (lead @ s @ trail) = s"
proof (cases "s = []")
  case True
  have d: "dropWhile is_space (lead @ trail) = []"
    using assms(1,2) by (auto simp: dropWhile_eq_Nil_conv list_all_iff)
  show ?thesis
    unfolding True strip_def by (simp only: append_Nil d rev.simps dropWhile.simps)
next
  case False
  then obtain c cs where s: "s = c # cs" by (cases s) auto
  have c: "\<not> is_space c" using assms(3) s by simp
  have 1: "dropWhile is_space (lead @ s @ trail) = s @ trail"
    using dropWhile_skip [OF assms(1) c, of "cs @ trail"] s by simp
  have l: "\<not> is_space (last s)" using assms(3) False by simp
  have "rev s \<noteq> []" using False by simp
  then obtain e es where r: "rev s = e # es" by (cases "rev s") auto
  have "e = last s" using r False by (metis last_rev list.sel(1) rev_rev_ident hd_rev)
  then have e: "\<not> is_space e" using l by simp
  have "list_all is_space (rev trail)" using assms(2) by (simp add: list_all_iff)
  from dropWhile_skip [OF this e, of es] have 2: "dropWhile is_space (rev (s @ trail)) = rev s"
    using r by simp
  show ?thesis
    by (simp only: strip_def 1 2 rev_rev_ident)
qed

lemma remove_colon_keep:
  assumes "s = [] \<or> last s \<noteq> CHR '':'' \<and> \<not> is_space (last s)"
  shows "remove_colon s = s"
proof (cases "s = []")
  case True
  then show ?thesis by (simp add: remove_colon_def)
next
  case False
  then obtain e es where r: "rev s = e # es" by (cases "rev s") auto
  have "e = last s" using r False by (metis hd_rev list.sel(1))
  then have "e \<noteq> CHR '':''" "e \<noteq> CHR 0x0A"
    using assms False by (auto simp: is_space_def)
  then show ?thesis by (simp add: remove_colon_def r)
qed

lemma remove_colon_drop: "remove_colon (s @ '':'') = s"
  by (simp add: remove_colon_def)

lemma name_of_parts:
  assumes "name_parts lead marker core colon trail"
  shows "heading_name (lead @ marker @ core @ colon @ trail) =
           map (\<lambda>c. if c = CHR '' '' then CHR ''_'' else c) (lower core)"
proof -
  let ?rest = "core @ colon"
  let ?s = "marker @ ?rest"
  from assms have lead: "list_all is_space lead" and trail: "list_all is_space trail"
    and mk: "marker = [] \<and> \<not> match_markdown ?rest
        \<or> (\<exists>m gap. 0 < m \<and> gap \<noteq> [] \<and> list_all is_space gap
                    \<and> marker = replicate m CHR ''#'' @ gap) \<and> ?rest \<noteq> []"
    and col: "colon = '':'' \<or> colon = [] \<and> (core = [] \<or> last core \<noteq> CHR '':'')"
    and ends: "?rest = [] \<or> \<not> is_space (hd ?rest) \<and> \<not> is_space (last ?rest)"
    by (auto simp: name_parts_def)
  have lcolon: "lower colon = colon"
    using col by (auto simp: lower_def lower_char_def is_upper_def upper_letters_def)
  have lrest: "lower ?rest = lower core @ colon"
    by (simp add: lower_append lcolon)
  have hd_l: "\<not> is_space (hd (lower ?rest))" if "?rest \<noteq> []"
    using that ends by (cases ?rest) (auto simp: lower_def is_space_lower_char)
  \<comment> \<open>strip\<close>
  have s_ends: "?s = [] \<or> \<not> is_space (hd ?s) \<and> \<not> is_space (last ?s)"
    using mk
  proof
    assume "marker = [] \<and> \<not> match_markdown ?rest"
    then show ?thesis using ends by simp
  next
    assume "(\<exists>m gap. 0 < m \<and> gap \<noteq> [] \<and> list_all is_space gap
                    \<and> marker = replicate m CHR ''#'' @ gap) \<and> ?rest \<noteq> []"
    then obtain m gap where m: "0 < m" "marker = replicate m CHR ''#'' @ gap" and r: "?rest \<noteq> []"
      by blast
    have "hd ?s = CHR ''#''" using m by (cases m) auto
    moreover have "\<not> is_space CHR ''#''" by (simp add: is_space_def)
    ultimately have h: "\<not> is_space (hd ?s)" by simp
    have "last ?s = last ?rest" using r by simp
    moreover have "\<not> is_space (last ?rest)" using ends r by blast
    ultimately have l: "\<not> is_space (last ?s)" by simp
    from h l show ?thesis by blast
  qed
  have "lead @ marker @ core @ colon @ trail = lead @ ?s @ trail" by simp
  then have strip: "strip (lead @ marker @ core @ colon @ trail) = ?s"
    using strip_exact [OF lead trail s_ends] by simp
  \<comment> \<open>the marker\<close>
  have rm: "remove_markdown (lower ?s) = lower core @ colon"
    using mk
  proof
    assume a: "marker = [] \<and> \<not> match_markdown ?rest"
    then have "\<not> match_markdown (lower ?rest)" by (simp only: match_markdown_lower) simp
    then show ?thesis using a by (simp add: remove_markdown_def lrest)
  next
    assume "(\<exists>m gap. 0 < m \<and> gap \<noteq> [] \<and> list_all is_space gap
                    \<and> marker = replicate m CHR ''#'' @ gap) \<and> ?rest \<noteq> []"
    then obtain m gap where m: "0 < m" "gap \<noteq> []" "list_all is_space gap"
        "marker = replicate m CHR ''#'' @ gap" and r: "?rest \<noteq> []"
      by blast
    obtain g gs where g: "gap = g # gs" using m(2) by (cases gap) auto
    have gsp: "is_space g" using m(3) g by simp
    have gh: "g \<noteq> CHR ''#''" using gsp by (auto simp: is_space_def)
    define R where "R = lower core @ colon"
    have R: "R = lower ?rest" by (simp add: R_def lrest)
    have "R \<noteq> []" using r by (simp add: R_def lower_def)
    then obtain x xs where x: "R = x # xs" by (cases R) auto
    have xs: "\<not> is_space x" using hd_l [OF r] x R by simp
    have low: "lower ?s = replicate m CHR ''#'' @ gap @ R"
      by (simp add: m(4) lower_append lower_hashes lower_space [OF m(3)] R_def lcolon)
    have "list_all (\<lambda>d. d = CHR ''#'') (replicate m CHR ''#'')" by (simp add: list_all_iff)
    from dropWhile_skip [OF this gh, of "gs @ R"]
    have d1: "dropWhile (\<lambda>d. d = CHR ''#'') (replicate m CHR ''#'' @ gap @ R) = gap @ R"
      using g by simp
    have d2: "dropWhile is_space (gap @ R) = R"
      using dropWhile_skip [OF m(3) xs, of xs] x by simp
    have mm: "match_markdown (replicate m CHR ''#'' @ gap @ R)"
      unfolding match_markdown_def d1 using m(1) g gsp by (cases m) auto
    have "remove_markdown (lower ?s) = R"
      by (simp only: low remove_markdown_def mm if_True d1 d2)
    then show ?thesis by (simp add: R_def)
  qed
  \<comment> \<open>the colon\<close>
  have rc: "remove_colon (lower core @ colon) = lower core"
    using col
  proof
    assume "colon = '':''"
    then show ?thesis by (simp add: remove_colon_drop)
  next
    assume a: "colon = [] \<and> (core = [] \<or> last core \<noteq> CHR '':'')"
    have "lower core = [] \<or> last (lower core) \<noteq> CHR '':'' \<and> \<not> is_space (last (lower core))"
    proof (cases "core = []")
      case True
      then show ?thesis by (simp add: lower_def)
    next
      case False
      then have "last (lower core) = lower_char (last core)"
        by (simp add: lower_def last_map)
      moreover have "last core \<noteq> CHR '':''" "\<not> is_space (last core)"
        using a False ends by auto
      ultimately show ?thesis by (simp add: lower_char_colon is_space_lower_char)
    qed
    then show ?thesis using a by (simp add: remove_colon_keep)
  qed
  show ?thesis
    by (simp only: heading_name_def strip rm rc replace_spaces_def)
qed

lemma strip_split:
  "\<exists>lead s trail. line = lead @ s @ trail \<and> list_all is_space lead \<and> list_all is_space trail
     \<and> (s = [] \<or> \<not> is_space (hd s) \<and> \<not> is_space (last s))"
proof -
  define lead where "lead = takeWhile is_space line"
  define r where "r = dropWhile is_space line"
  define s where "s = rev (dropWhile is_space (rev r))"
  define trail where "trail = rev (takeWhile is_space (rev r))"
  have 1: "line = lead @ r" by (simp add: lead_def r_def)
  have "rev (takeWhile is_space (rev r) @ dropWhile is_space (rev r)) =
          rev (dropWhile is_space (rev r)) @ rev (takeWhile is_space (rev r))"
    by (rule rev_append)
  then have "rev (rev r) = s @ trail"
    by (simp only: takeWhile_dropWhile_id s_def trail_def)
  then have 2: "r = s @ trail" by (simp only: rev_rev_ident)
  have 3: "list_all is_space lead"
    by (auto simp: lead_def list_all_iff dest: set_takeWhileD)
  have 4: "list_all is_space trail"
    by (auto simp: trail_def list_all_iff dest: set_takeWhileD)
  have 5: "\<not> is_space (hd s) \<and> \<not> is_space (last s)" if ne: "s \<noteq> []"
  proof -
    have "dropWhile is_space (rev r) \<noteq> []" using ne by (simp add: s_def)
    then have "\<not> is_space (hd (dropWhile is_space (rev r)))" by (rule hd_dropWhile)
    then have l: "\<not> is_space (last s)" using ne by (simp add: s_def last_rev)
    have "r \<noteq> []" using ne 2 by simp
    then have "\<not> is_space (hd r)" unfolding r_def by (rule hd_dropWhile)
    then have "\<not> is_space (hd s)" using ne 2 by simp
    with l show ?thesis by simp
  qed
  from 1 2 3 4 5 show ?thesis by blast
qed

lemma takeWhile_hashes:
  "takeWhile (\<lambda>d. d = x) s = replicate (length (takeWhile (\<lambda>d. d = x) s)) x"
  by (induction s) auto

lemma marker_split:
  assumes "s = [] \<or> \<not> is_space (hd s) \<and> \<not> is_space (last s)"
  shows "\<exists>marker rest. s = marker @ rest
     \<and> (marker = [] \<and> \<not> match_markdown rest
        \<or> (\<exists>m gap. 0 < m \<and> gap \<noteq> [] \<and> list_all is_space gap
                    \<and> marker = replicate m CHR ''#'' @ gap) \<and> rest \<noteq> [])
     \<and> (rest = [] \<or> \<not> is_space (hd rest) \<and> \<not> is_space (last rest))"
proof (cases "match_markdown s")
  case False
  then have "s = [] @ s \<and> ([] = ([]::string) \<and> \<not> match_markdown s)
               \<and> (s = [] \<or> \<not> is_space (hd s) \<and> \<not> is_space (last s))"
    using assms by simp
  then show ?thesis by blast
next
  case True
  define hs where "hs = takeWhile (\<lambda>d. d = CHR ''#'') s"
  define after where "after = dropWhile (\<lambda>d. d = CHR ''#'') s"
  define gap where "gap = takeWhile is_space after"
  define rest where "rest = dropWhile is_space after"
  from True have mm: "case s of [] \<Rightarrow> False
      | c # x \<Rightarrow> c = CHR ''#'' \<and> (case after of [] \<Rightarrow> False | w # y \<Rightarrow> is_space w)"
    unfolding match_markdown_def after_def .
  then obtain c cs where s: "s = c # cs" and c: "c = CHR ''#''"
    by (cases s) auto
  from mm s obtain w ws where a: "after = w # ws" and w: "is_space w"
    by (cases after) auto
  have split: "s = hs @ gap @ rest"
    by (simp add: hs_def gap_def rest_def after_def)
  have hs: "hs = replicate (length hs) CHR ''#''"
    unfolding hs_def by (rule takeWhile_hashes)
  have m: "0 < length hs" using s c by (simp add: hs_def)
  have g: "gap \<noteq> []" using a w by (simp add: gap_def)
  have gs: "list_all is_space gap"
    by (auto simp: gap_def list_all_iff dest: set_takeWhileD)
  have sne: "s \<noteq> []" using s by simp
  have r: "rest \<noteq> []"
  proof
    assume "rest = []"
    then have "last s = last gap" using split g by simp
    moreover have "is_space (last gap)" using g gs by (simp add: list_all_iff)
    ultimately show False using assms sne by simp
  qed
  have h: "\<not> is_space (hd rest)" using r unfolding rest_def by (rule hd_dropWhile)
  have "last rest = last s" using split r by simp
  then have l: "\<not> is_space (last rest)" using assms sne by simp
  have "s = (hs @ gap) @ rest" using split by simp
  moreover have "\<exists>m g. 0 < m \<and> g \<noteq> [] \<and> list_all is_space g \<and> hs @ gap = replicate m CHR ''#'' @ g"
    using m g gs hs by metis
  ultimately show ?thesis using r h l by blast
qed

lemma colon_split:
  "\<exists>core colon. rest = core @ colon
     \<and> (colon = '':'' \<or> colon = [] \<and> (core = [] \<or> last core \<noteq> CHR '':''))"
proof (cases "rest \<noteq> [] \<and> last rest = CHR '':''")
  case True
  then have "rest = butlast rest @ '':''" by (metis append_butlast_last_id)
  then show ?thesis by blast
next
  case False
  then have "rest = rest @ [] \<and> (rest = [] \<or> last rest \<noteq> CHR '':'')" by simp
  then show ?thesis by blast
qed

lemma line_has_parts:
  "\<exists>lead marker core colon trail.
     line = lead @ marker @ core @ colon @ trail \<and> name_parts lead marker core colon trail"
proof -
  obtain lead s trail where 1: "line = lead @ s @ trail" "list_all is_space lead"
      "list_all is_space trail" "s = [] \<or> \<not> is_space (hd s) \<and> \<not> is_space (last s)"
    using strip_split by blast
  obtain marker rest where 2: "s = marker @ rest"
      "marker = [] \<and> \<not> match_markdown rest
        \<or> (\<exists>m gap. 0 < m \<and> gap \<noteq> [] \<and> list_all is_space gap
                    \<and> marker = replicate m CHR ''#'' @ gap) \<and> rest \<noteq> []"
      "rest = [] \<or> \<not> is_space (hd rest) \<and> \<not> is_space (last rest)"
    using marker_split [OF 1(4)] by blast
  obtain core colon where 3: "rest = core @ colon"
      "colon = '':'' \<or> colon = [] \<and> (core = [] \<or> last core \<noteq> CHR '':'')"
    using colon_split by blast
  have "name_parts lead marker core colon trail"
    unfolding name_parts_def using 1(2,3) 2(2,3) 3(2) unfolding 3(1) by blast
  moreover have "line = lead @ marker @ core @ colon @ trail"
    using 1(1) 2(1) 3(1) by simp
  ultimately show ?thesis by blast
qed

text \<open>C9, as the code has it: every line can be cut into leading white space, a marker
  or none, a core, a colon or none, and trailing white space; and the name of a line so
  cut is its core in lower case with each space replaced by one underscore, so that a run
  of \<open>n\<close> spaces gives \<open>n\<close> underscores and other white space stays. An empty
  core gives the placeholder of line 715.\<close>

theorem heading_name_parts:
  "(name_parts lead marker core colon trail \<longrightarrow>
      heading_name (lead @ marker @ core @ colon @ trail) =
        map (\<lambda>c. if c = CHR '' '' then CHR ''_'' else c) (lower core)
      \<and> section_name (lead @ marker @ core @ colon @ trail) k =
          (if core = [] then ''section_'' @ str_of_nat k
           else map (\<lambda>c. if c = CHR '' '' then CHR ''_'' else c) (lower core)))
   \<and> (\<exists>lead' marker' core' colon' trail'.
        line = lead' @ marker' @ core' @ colon' @ trail'
        \<and> name_parts lead' marker' core' colon' trail')"
  using name_of_parts [of lead marker core colon trail] line_has_parts [of line]
  by (simp add: section_name_def lower_def)

text \<open>The theorem at the heading \<^verbatim>\<open>## Foo  Bar: \<close>, with a marker, two spaces between
  the words, a colon and a trailing space.\<close>

theorem heading_name_parts_witness:
  "is_heading ''## Foo  Bar: '' \<and> heading_name ''## Foo  Bar: '' = ''foo__bar''
   \<and> section_name ''## Foo  Bar: '' 3 = ''foo__bar''"
proof -
  have "\<exists>m gap. 0 < m \<and> gap \<noteq> [] \<and> list_all is_space gap
          \<and> ''## '' = replicate m CHR ''#'' @ gap"
    by (rule exI [where x = "Suc (Suc 0)"], rule exI [where x = "'' ''"])
       (simp add: is_space_def)
  then have p: "name_parts [] ''## '' ''Foo  Bar'' '':'' '' ''"
    by (simp add: name_parts_def is_space_def)
  have l: "lower ''Foo  Bar'' = ''foo  bar''" by code_simp
  have h: "is_heading ''## Foo  Bar: ''" by code_simp
  from heading_name_parts [of "[]" "''## ''" "''Foo  Bar''" "'':''" "'' ''" 3, THEN conjunct1, THEN mp, OF p]
  have "heading_name ''## Foo  Bar: '' = ''foo__bar''
        \<and> section_name ''## Foo  Bar: '' 3 = ''foo__bar''"
    by (simp add: l)
  with h show ?thesis by simp
qed

text \<open>C9 as stated fails: two spaces between the words of a heading give two
  underscores, not one.\<close>

theorem single_underscore_counterexample:
  "is_heading ''RISK  ASSESSMENT:'' \<and> section_name ''RISK  ASSESSMENT:'' 0 = ''risk__assessment''"
  by code_simp

subsection \<open>The keyword fallback\<close>

lemma kw_match_Nil: "kw_match kw [] = None"
  by (simp add: kw_match_def)

lemma kw_match_iff:
  "kw_match kw s \<noteq> None \<longleftrightarrow> ci_starts_with kw s \<and> CHR 0x0A \<in> set (drop (length kw) s)"
  by (simp add: kw_match_def)

lemma finditer_nonempty:
  "finditer kw pos s \<noteq> [] \<longleftrightarrow> (\<exists>q. kw_match kw (drop q s) \<noteq> None)"
proof (induction s arbitrary: pos)
  case Nil
  show ?case by (simp add: kw_match_Nil)
next
  case (Cons c cs)
  show ?case
  proof (cases "kw_match kw (c # cs)")
    case (Some n)
    then have "kw_match kw (drop 0 (c # cs)) \<noteq> None" by simp
    then have "\<exists>q. kw_match kw (drop q (c # cs)) \<noteq> None" by blast
    with Some show ?thesis by simp
  next
    case None
    have "(\<exists>q. kw_match kw (drop q (c # cs)) \<noteq> None) \<longleftrightarrow> (\<exists>q. kw_match kw (drop q cs) \<noteq> None)"
    proof
      assume "\<exists>q. kw_match kw (drop q (c # cs)) \<noteq> None"
      then obtain q where q: "kw_match kw (drop q (c # cs)) \<noteq> None" by blast
      with None obtain r where "q = Suc r" by (cases q) auto
      with q show "\<exists>q. kw_match kw (drop q cs) \<noteq> None" by auto
    next
      assume "\<exists>q. kw_match kw (drop q cs) \<noteq> None"
      then obtain q where "kw_match kw (drop (Suc q) (c # cs)) \<noteq> None" by auto
      then show "\<exists>q. kw_match kw (drop q (c # cs)) \<noteq> None" by blast
    qed
    with None Cons.IH [of "pos + 1"] show ?thesis by simp
  qed
qed

lemma keys_dict_set: "fst ` set (dict_set d k v) = insert k (fst ` set d)"
proof (induction d)
  case Nil
  show ?case by simp
next
  case (Cons p d)
  show ?case
  proof (cases "fst p = k")
    case True
    then show ?thesis by (cases p) auto
  next
    case False
    then show ?thesis using Cons.IH by (cases p) auto
  qed
qed

lemma keys_add_matches:
  "fst ` set (add_matches t kw ms secs) =
     fst ` set secs \<union> (if ms = [] then {} else {section_key kw})"
  by (induction t kw ms secs rule: add_matches.induct) (simp_all add: keys_dict_set)

lemma keys_keyword_loop:
  "fst ` set (keyword_loop t kws secs) =
     fst ` set secs \<union> section_key ` {kw \<in> set kws. finditer kw 0 t \<noteq> []}"
proof (induction kws arbitrary: secs)
  case Nil
  show ?case by simp
next
  case (Cons kw kws)
  have "{k \<in> set (kw # kws). finditer k 0 t \<noteq> []} =
        (if finditer kw 0 t \<noteq> [] then {kw} else {}) \<union> {k \<in> set kws. finditer k 0 t \<noteq> []}"
    by auto
  then show ?case
    by (simp add: Cons.IH keys_add_matches image_Un Un_assoc)
qed

lemma section_keys_distinct: "distinct (map section_key all_keywords)"
  by code_simp

text \<open>C5, as the code has it: the pattern of line 860 has no anchor. A keyword of the
  vocabulary yields a section exactly when it occurs somewhere in the text, at the start
  of a line or inside one, case ignored, with a newline somewhere after it.\<close>

theorem keyword_anywhere:
  assumes "kw \<in> set all_keywords"
  shows "section_key kw \<in> fst ` set (extract_sections_from_content text) \<longleftrightarrow>
         (\<exists>p. ci_starts_with kw (drop p text) \<and> CHR 0x0A \<in> set (drop (p + length kw) text))"
proof -
  have inj: "inj_on section_key (set all_keywords)"
    using section_keys_distinct by (simp add: distinct_map)
  have "section_key kw \<in> fst ` set (extract_sections_from_content text) \<longleftrightarrow>
        section_key kw \<in> section_key ` {k \<in> set all_keywords. finditer k 0 text \<noteq> []}"
    by (simp add: extract_sections_from_content_def keys_keyword_loop)
  also have "\<dots> \<longleftrightarrow> finditer kw 0 text \<noteq> []"
    using assms inj by (auto simp: inj_on_def)
  also have "\<dots> \<longleftrightarrow> (\<exists>p. kw_match kw (drop p text) \<noteq> None)"
    by (rule finditer_nonempty)
  also have "\<dots> \<longleftrightarrow>
      (\<exists>p. ci_starts_with kw (drop p text) \<and> CHR 0x0A \<in> set (drop (p + length kw) text))"
    by (simp only: kw_match_iff drop_drop add.commute)
  finally show ?thesis .
qed

text \<open>The theorem at the keyword \<^verbatim>\<open>security\<close>, which occurs at position 7 of the
  first line of the text.\<close>

theorem keyword_anywhere_witness:
  "section_key ''security'' \<in> fst ` set (extract_sections_from_content ''we use security here\<newline>TLS\<newline>'')"
proof -
  have k: "''security'' \<in> set all_keywords"
    by (simp add: all_keywords_def system_analysis_keywords_def)
  have at7: "ci_starts_with ''security'' (drop 7 ''we use security here\<newline>TLS\<newline>'')
        \<and> CHR 0x0A \<in> set (drop (7 + length ''security'') ''we use security here\<newline>TLS\<newline>'')"
    by (simp add: lower_char_def is_upper_def upper_letters_def)
  have "\<exists>p. ci_starts_with ''security'' (drop p ''we use security here\<newline>TLS\<newline>'')
        \<and> CHR 0x0A \<in> set (drop (p + length ''security'') ''we use security here\<newline>TLS\<newline>'')"
    by (rule exI [where x = 7]) (rule at7)
  then show ?thesis
    by (rule iffD2 [OF keyword_anywhere [OF k]])
qed

text \<open>C5 as stated fails: no line of this text starts with a keyword, and the keyword
  inside the first line yields the section \<^verbatim>\<open>security\<close>.\<close>

theorem line_start_counterexample:
  "\<not> list_ex (\<lambda>line. list_ex (\<lambda>kw. ci_starts_with kw line) all_keywords)
        (split_lines ''we use security here\<newline>TLS\<newline>'')
   \<and> extract_sections_from_content ''we use security here\<newline>TLS\<newline>'' = [(''security'', ''TLS'')]"
  by code_simp

subsection \<open>The example without headings\<close>

lemma no_heading_ne: "no_heading_example \<noteq> []"
  by (simp add: no_heading_example_def)

lemma no_heading_line_sections:
  "line_sections no_heading_example = [(''overview'', no_heading_example)]"
  by code_simp

lemma no_heading_fallback:
  "extract_sections_from_content no_heading_example = [(''dependency'', []), (''hypothesis'', [])]"
  by code_simp

lemma no_heading_fields:
  "structured_fields destructive_testing_fields [(''dependency'', []), (''hypothesis'', [])] =
     [(''dependency_analysis'', []), (''steady_state_definition'', []),
      (''hypothesis_generation'', []), (''experiment_design'', []), (''rumsfeld_matrix'', []),
      (''test_case_management'', []), (''blast_radius_analysis'', []), (''coverage'', [])]"
  by code_simp

lemma no_heading_result:
  "parse_analysis_result no_heading_example DESTRUCTIVE_TESTING =
     [(''dependency_analysis'', Str no_heading_example), (''steady_state_definition'', Str []),
      (''hypothesis_generation'', Str []), (''experiment_design'', Str []),
      (''rumsfeld_matrix'', Str []), (''test_case_management'', Str []),
      (''blast_radius_analysis'', Str []), (''coverage'', Str []),
      (''sections'', Dict [(''dependency'', []), (''hypothesis'', [])])]"
proof -
  have "parse_analysis_result no_heading_example DESTRUCTIVE_TESTING =
          structured_branch destructive_testing_fields no_heading_example
            [(''overview'', no_heading_example)]"
    using no_heading_ne
    by (simp add: parse_analysis_result_def Let_def no_heading_line_sections
          SYSTEM_ANALYSIS_def DESTRUCTIVE_TESTING_def)
  also have "\<dots> =
      dict_set (map (\<lambda>(field, v). (field, Str v))
                  (raw_text_fields destructive_testing_fields no_heading_example))
        ''sections'' (Dict [(''dependency'', []), (''hypothesis'', [])])"
    by (simp add: structured_branch_def Let_def fallback_sections_def no_heading_fallback
          no_heading_fields any_value_def)
  also have "\<dots> =
     [(''dependency_analysis'', Str no_heading_example), (''steady_state_definition'', Str []),
      (''hypothesis_generation'', Str []), (''experiment_design'', Str []),
      (''rumsfeld_matrix'', Str []), (''test_case_management'', Str []),
      (''blast_radius_analysis'', Str []), (''coverage'', Str []),
      (''sections'', Dict [(''dependency'', []), (''hypothesis'', [])])]"
    by (simp add: raw_text_fields_def destructive_testing_fields_def)
  finally show ?thesis .
qed

text \<open>C6, as the code has it: on the example the pass over the lines finds one section,
  so the keyword fallback runs; it finds the sections \<^verbatim>\<open>dependency\<close> and
  \<^verbatim>\<open>hypothesis\<close>, both with an empty body, since each body starts after the line of
  its keyword and ends where the next keyword line starts. Every field is then empty, and
  lines 776 to 786 put the whole text under \<^verbatim>\<open>dependency_analysis\<close> and the empty string
  under \<^verbatim>\<open>hypothesis_generation\<close> and the other fields.\<close>

theorem no_heading_example_result:
  "length (line_sections no_heading_example) \<le> 1
   \<and> discovered_sections no_heading_example = [(''dependency'', []), (''hypothesis'', [])]
   \<and> parse_analysis_result no_heading_example DESTRUCTIVE_TESTING =
       [(''dependency_analysis'', Str no_heading_example), (''steady_state_definition'', Str []),
        (''hypothesis_generation'', Str []), (''experiment_design'', Str []),
        (''rumsfeld_matrix'', Str []), (''test_case_management'', Str []),
        (''blast_radius_analysis'', Str []), (''coverage'', Str []),
        (''sections'', Dict [(''dependency'', []), (''hypothesis'', [])])]"
  by (simp add: no_heading_result no_heading_line_sections no_heading_fallback
        discovered_sections_def fallback_sections_def)

text \<open>C6 as stated fails: on the example the field \<^verbatim>\<open>hypothesis_generation\<close> is the
  empty string.\<close>

theorem hypothesis_generation_counterexample:
  "map_of (parse_analysis_result no_heading_example DESTRUCTIVE_TESTING) ''hypothesis_generation''
     = Some (Str [])"
  by (simp add: no_heading_result)


subsection \<open>The fallback to the whole text\<close>

lemma extract_section_no_match:
  "list_all (\<lambda>key. list_all (\<lambda>(name, body). \<not> is_substring key name) secs) keys \<Longrightarrow>
   extract_section secs keys = []"
proof (induction keys)
  case Nil
  show ?case by simp
next
  case (Cons key keys)
  then have "find (\<lambda>(name, body). is_substring key name) secs = None"
    by (auto simp: find_None_iff list_all_iff)
  with Cons show ?case by simp
qed

lemma structured_fields_no_match:
  "no_synonym_matches flds secs \<Longrightarrow>
   structured_fields flds secs = map (\<lambda>(field, keys). (field, [])) flds"
  by (induction flds)
     (auto simp: no_synonym_matches_def structured_fields_def extract_section_no_match)

lemma any_value_empty: "\<not> any_value (map (\<lambda>(field, keys). (field, [])) flds)"
  by (induction flds) (auto simp: any_value_def)

lemma structured_branch_no_match:
  assumes "no_synonym_matches flds (fallback_sections t prev)"
    and "''sections'' \<notin> set (map fst flds)"
  shows "structured_branch flds t prev =
           map (\<lambda>(field, v). (field, Str v)) (raw_text_fields flds t)
           @ [(''sections'', Dict (fallback_sections t prev))]"
proof -
  have fresh: "''sections'' \<notin> fst ` set (map (\<lambda>(field, v). (field, Str v)) (raw_text_fields flds t))"
  proof -
    have "map fst (map (\<lambda>(field, v). (field, Str v)) (raw_text_fields flds t)) = map fst flds"
      by (cases flds) (auto simp: raw_text_fields_def case_prod_unfold)
    then have "fst ` set (map (\<lambda>(field, v). (field, Str v)) (raw_text_fields flds t)) = set (map fst flds)"
      by (metis set_map)
    with assms(2) show ?thesis by simp
  qed
  have "structured_branch flds t prev =
          dict_set (map (\<lambda>(field, v). (field, Str v)) (raw_text_fields flds t))
            ''sections'' (Dict (fallback_sections t prev))"
    using structured_fields_no_match [OF assms(1)] any_value_empty [of flds]
    by (simp add: structured_branch_def Let_def)
  then show ?thesis
    using dict_set_fresh [OF fresh] by simp
qed

lemma no_occurrence_finditer: "\<not> ci_occurs kw s \<Longrightarrow> finditer kw pos s = []"
  by (induction s arbitrary: pos) (auto simp: kw_match_def)

lemma no_occurrence_keyword_loop:
  "list_all (\<lambda>kw. \<not> ci_occurs kw t) kws \<Longrightarrow> keyword_loop t kws secs = secs"
  by (induction kws arbitrary: secs) (auto simp: no_occurrence_finditer)

lemma no_heading_fold:
  "list_all (\<lambda>line. \<not> is_heading line) ls \<Longrightarrow>
   foldl seg_step st ls = st\<lparr>current_content := current_content st @ ls\<rparr>"
  by (induction ls arbitrary: st) (auto simp: seg_step_def)

lemma split_lines_not_Nil: "split_lines s \<noteq> []"
  by (induction s) (auto split: list.splits)

lemma no_heading_segment:
  "list_all (\<lambda>line. \<not> is_heading line) ls \<Longrightarrow> ls \<noteq> [] \<Longrightarrow>
   segment_lines ls = [(''overview'', join_lines ls)]"
  by (simp add: segment_lines_def no_heading_fold save_section_def seg_init_def)

lemma prose_discovered:
  assumes "list_all (\<lambda>line. \<not> is_heading line) (split_lines t)"
    and "list_all (\<lambda>kw. \<not> ci_occurs kw t) all_keywords"
  shows "discovered_sections t = []"
  using no_heading_segment [OF assms(1) split_lines_not_Nil] no_occurrence_keyword_loop [OF assms(2)]
  by (simp add: discovered_sections_def fallback_sections_def line_sections_def
        extract_sections_from_content_def)

text \<open>C7: for a non-empty text and each of the three report types, when no possible key
  of any field occurs in the name of any section the mapper reads, the result holds the
  whole text under the first field and the empty string under every other field. In
  particular a text with no heading line and no keyword of the vocabulary gives, under
  \<^verbatim>\<open>PRR\<close>, the whole text in \<^verbatim>\<open>executive_summary\<close>, the other fields empty, and no
  section.\<close>

theorem whole_text_fallback:
  assumes "text \<noteq> []"
  shows "(no_synonym_matches system_analysis_fields (discovered_sections text) \<longrightarrow>
            parse_analysis_result text SYSTEM_ANALYSIS =
              [(''components'', Str text), (''reliability'', Str []), (''scalability'', Str []),
               (''security'', Str []), (''observability'', Str []), (''performance'', Str []),
               (''operational_complexity'', Str []), (''recommendations'', Str []),
               (''sections'', Dict (discovered_sections text))])
       \<and> (no_synonym_matches destructive_testing_fields (discovered_sections text) \<longrightarrow>
            parse_analysis_result text DESTRUCTIVE_TESTING =
              [(''dependency_analysis'', Str text), (''steady_state_definition'', Str []),
               (''hypothesis_generation'', Str []), (''experiment_design'', Str []),
               (''rumsfeld_matrix'', Str []), (''test_case_management'', Str []),
               (''blast_radius_analysis'', Str []), (''coverage'', Str []),
               (''sections'', Dict (discovered_sections text))])
       \<and> (no_synonym_matches prr_fields (discovered_sections text) \<longrightarrow>
            parse_analysis_result text PRR =
              [(''executive_summary'', Str text), (''application_overview'', Str []),
               (''reliability_requirements'', Str []), (''risk_assessment'', Str []),
               (''observability_strategy'', Str []), (''destructive_testing_results'', Str []),
               (''incident_response'', Str []), (''reliability_roadmap'', Str []),
               (''sections'', Dict (discovered_sections text))])
       \<and> (list_all (\<lambda>line. \<not> is_heading line) (split_lines text)
            \<and> list_all (\<lambda>keyword. \<not> ci_occurs keyword text) all_keywords \<longrightarrow>
            parse_analysis_result text PRR =
              [(''executive_summary'', Str text), (''application_overview'', Str []),
               (''reliability_requirements'', Str []), (''risk_assessment'', Str []),
               (''observability_strategy'', Str []), (''destructive_testing_results'', Str []),
               (''incident_response'', Str []), (''reliability_roadmap'', Str []),
               (''sections'', Dict [])])"
proof -
  have s: "''sections'' \<notin> set (map fst system_analysis_fields)"
    by (simp add: system_analysis_fields_def)
  have d: "''sections'' \<notin> set (map fst destructive_testing_fields)"
    by (simp add: destructive_testing_fields_def)
  have p: "''sections'' \<notin> set (map fst prr_fields)"
    by (simp add: prr_fields_def)
  have 1: "parse_analysis_result text SYSTEM_ANALYSIS =
             structured_branch system_analysis_fields text (line_sections text)"
    using assms by (simp add: parse_analysis_result_def Let_def)
  have 2: "parse_analysis_result text DESTRUCTIVE_TESTING =
             structured_branch destructive_testing_fields text (line_sections text)"
    using assms tags_distinct by (simp add: parse_analysis_result_def Let_def)
  have 3: "parse_analysis_result text PRR = structured_branch prr_fields text (line_sections text)"
    using assms tags_distinct by (simp add: parse_analysis_result_def Let_def)
  have a: "parse_analysis_result text SYSTEM_ANALYSIS =
              [(''components'', Str text), (''reliability'', Str []), (''scalability'', Str []),
               (''security'', Str []), (''observability'', Str []), (''performance'', Str []),
               (''operational_complexity'', Str []), (''recommendations'', Str []),
               (''sections'', Dict (discovered_sections text))]"
    if "no_synonym_matches system_analysis_fields (discovered_sections text)"
    using structured_branch_no_match [OF _ s, of "text" "line_sections text"] that
    unfolding 1 discovered_sections_def
    by (simp add: raw_text_fields_def system_analysis_fields_def)
  have b: "parse_analysis_result text DESTRUCTIVE_TESTING =
              [(''dependency_analysis'', Str text), (''steady_state_definition'', Str []),
               (''hypothesis_generation'', Str []), (''experiment_design'', Str []),
               (''rumsfeld_matrix'', Str []), (''test_case_management'', Str []),
               (''blast_radius_analysis'', Str []), (''coverage'', Str []),
               (''sections'', Dict (discovered_sections text))]"
    if "no_synonym_matches destructive_testing_fields (discovered_sections text)"
    using structured_branch_no_match [OF _ d, of "text" "line_sections text"] that
    unfolding 2 discovered_sections_def
    by (simp add: raw_text_fields_def destructive_testing_fields_def)
  have c: "parse_analysis_result text PRR =
              [(''executive_summary'', Str text), (''application_overview'', Str []),
               (''reliability_requirements'', Str []), (''risk_assessment'', Str []),
               (''observability_strategy'', Str []), (''destructive_testing_results'', Str []),
               (''incident_response'', Str []), (''reliability_roadmap'', Str []),
               (''sections'', Dict (discovered_sections text))]"
    if "no_synonym_matches prr_fields (discovered_sections text)"
    using structured_branch_no_match [OF _ p, of "text" "line_sections text"] that
    unfolding 3 discovered_sections_def
    by (simp add: raw_text_fields_def prr_fields_def)
  have e: "parse_analysis_result text PRR =
              [(''executive_summary'', Str text), (''application_overview'', Str []),
               (''reliability_requirements'', Str []), (''risk_assessment'', Str []),
               (''observability_strategy'', Str []), (''destructive_testing_results'', Str []),
               (''incident_response'', Str []), (''reliability_roadmap'', Str []),
               (''sections'', Dict [])]"
    if h: "list_all (\<lambda>line. \<not> is_heading line) (split_lines text)"
          "list_all (\<lambda>keyword. \<not> ci_occurs keyword text) all_keywords"
  proof -
    have z: "discovered_sections text = []" using h by (rule prose_discovered)
    have "no_synonym_matches prr_fields (discovered_sections text)"
      unfolding z by (simp add: no_synonym_matches_def prr_fields_def)
    from c [OF this] show ?thesis unfolding z .
  qed
  from a b c e show ?thesis by blast
qed

text \<open>The theorem at the text \<^verbatim>\<open>just prose\<close>, which has no heading and no
  keyword.\<close>

theorem whole_text_fallback_witness:
  "parse_analysis_result ''just prose'' PRR =
     [(''executive_summary'', Str ''just prose''), (''application_overview'', Str []),
      (''reliability_requirements'', Str []), (''risk_assessment'', Str []),
      (''observability_strategy'', Str []), (''destructive_testing_results'', Str []),
      (''incident_response'', Str []), (''reliability_roadmap'', Str []),
      (''sections'', Dict [])]"
proof -
  have ne: "''just prose'' \<noteq> []" by simp
  have h1: "list_all (\<lambda>line. \<not> is_heading line) (split_lines ''just prose'')"
    by code_simp
  have h2: "list_all (\<lambda>keyword. \<not> ci_occurs keyword ''just prose'') all_keywords"
    by code_simp
  show ?thesis
    by (rule whole_text_fallback [OF ne, THEN conjunct2, THEN conjunct2, THEN conjunct2, THEN mp,
          OF conjI [OF h1 h2]])
qed

subsection \<open>The pass over the lines\<close>

lemma map_of_dict_set: "map_of (dict_set d k v) k' = (if k' = k then Some v else map_of d k')"
  by (induction d) auto

lemma seg_step_heading:
  "is_heading l \<Longrightarrow>
   seg_step st l = \<lparr>sections = save_section st,
                    current_section = section_name l (length (save_section st)),
                    current_content = []\<rparr>"
  by (simp add: seg_step_def Let_def)

lemma seg_step_body:
  "\<not> is_heading l \<Longrightarrow> seg_step st l = st\<lparr>current_content := current_content st @ [l]\<rparr>"
  by (simp add: seg_step_def)

lemma save_section_other:
  "current_section st \<noteq> name \<Longrightarrow> map_of (save_section st) name = map_of (sections st) name"
  by (simp add: save_section_def map_of_dict_set)

lemma save_section_current:
  "current_content st \<noteq> [] \<Longrightarrow>
   map_of (save_section st) (current_section st) = Some (join_lines (current_content st))"
  by (simp add: save_section_def map_of_dict_set)

lemma kept_until_end:
  assumes "map_of (sections st) name = Some v" "current_section st \<noteq> name"
    and "\<forall>l \<in> set ls. is_heading l \<longrightarrow> (\<forall>k. section_name l k \<noteq> name)"
  shows "map_of (save_section (foldl seg_step st ls)) name = Some v"
  using assms
proof (induction ls arbitrary: st)
  case Nil
  then show ?case by (simp add: save_section_other)
next
  case (Cons l ls)
  show ?case
  proof (cases "is_heading l")
    case True
    have "map_of (sections (seg_step st l)) name = Some v"
      using True Cons.prems(1,2) by (simp add: seg_step_heading save_section_other)
    moreover have "current_section (seg_step st l) \<noteq> name"
      using True Cons.prems(3) by (simp add: seg_step_heading)
    ultimately show ?thesis
      using Cons.IH [of "seg_step st l"] Cons.prems(3) by simp
  next
    case False
    then show ?thesis
      using Cons.IH [of "seg_step st l"] Cons.prems by (simp add: seg_step_body)
  qed
qed

lemma last_body_kept:
  assumes "current_content st \<noteq> []"
    and "rest = [] \<or> is_heading (hd rest)"
    and "\<forall>l \<in> set rest. is_heading l \<longrightarrow> (\<forall>k. section_name l k \<noteq> current_section st)"
  shows "map_of (save_section (foldl seg_step st rest)) (current_section st) =
           Some (join_lines (current_content st))"
proof (cases rest)
  case Nil
  then show ?thesis using assms(1) by (simp add: save_section_current)
next
  case (Cons r rs)
  then have r: "is_heading r" using assms(2) by simp
  have 1: "map_of (sections (seg_step st r)) (current_section st) =
             Some (join_lines (current_content st))"
    using r assms(1) by (simp add: seg_step_heading save_section_current)
  have 2: "current_section (seg_step st r) \<noteq> current_section st"
    using r assms(3) Cons by (simp add: seg_step_heading)
  have 3: "\<forall>l \<in> set rs. is_heading l \<longrightarrow> (\<forall>k. section_name l k \<noteq> current_section st)"
    using assms(3) Cons by simp
  show ?thesis
    using kept_until_end [OF 1 2 3] Cons by simp
qed

lemma section_name_nonempty: "heading_name l \<noteq> [] \<Longrightarrow> section_name l k = heading_name l"
  by (simp add: section_name_def)

text \<open>The keys of the mapping of the pass are pairwise distinct: an assignment to a key
  that is present replaces its value, and adds no entry.\<close>

lemma distinct_dict_set: "distinct (map fst d) \<Longrightarrow> distinct (map fst (dict_set d k v))"
proof (induction d)
  case Nil
  show ?case by simp
next
  case (Cons p d)
  show ?case
  proof (cases "fst p = k")
    case True
    then show ?thesis using Cons.prems by (cases p) auto
  next
    case False
    have "fst p \<notin> fst ` set (dict_set d k v)"
      using False Cons.prems by (simp add: keys_dict_set)
    then show ?thesis using False Cons by (cases p) auto
  qed
qed

lemma distinct_save_section:
  "distinct (map fst (sections st)) \<Longrightarrow> distinct (map fst (save_section st))"
  by (simp add: save_section_def distinct_dict_set)

lemma distinct_seg_step:
  "distinct (map fst (sections st)) \<Longrightarrow> distinct (map fst (sections (seg_step st l)))"
  by (cases "is_heading l") (simp_all add: seg_step_heading seg_step_body distinct_save_section)

lemma distinct_fold:
  "distinct (map fst (sections st)) \<Longrightarrow> distinct (map fst (sections (foldl seg_step st ls)))"
  by (induction ls arbitrary: st) (simp_all add: distinct_seg_step)

lemma distinct_segment_lines: "distinct (map fst (segment_lines ls))"
  unfolding segment_lines_def
  by (rule distinct_save_section, rule distinct_fold) (simp add: seg_init_def)

lemma distinct_line_sections: "distinct (map fst (line_sections s))"
  using distinct_segment_lines [of "split_lines s"] by (simp add: line_sections_def Let_def)



subsection \<open>The preamble and the name \<^verbatim>\<open>overview\<close>\<close>

lemma same_but_overview_save:
  assumes "same_but_overview st st'"
  shows "\<exists>v v' d. save_section st = (''overview'', v) # d \<and> save_section st' = (''overview'', v') # d"
proof -
  from assms obtain v v' d where
    s: "sections st = (''overview'', v) # d" "sections st' = (''overview'', v') # d"
    and c: "current_section st = current_section st'" "current_content st = current_content st'"
    by (auto simp: same_but_overview_def)
  show ?thesis
  proof (cases "current_content st = []")
    case True
    then show ?thesis using s c by (simp add: save_section_def)
  next
    case False
    then show ?thesis using s c by (cases "current_section st' = ''overview''") (simp_all add: save_section_def)
  qed
qed

lemma same_but_overview_step:
  assumes "same_but_overview st st'"
  shows "same_but_overview (seg_step st l) (seg_step st' l)"
proof (cases "is_heading l")
  case True
  from same_but_overview_save [OF assms] obtain v v' d where
    "save_section st = (''overview'', v) # d" "save_section st' = (''overview'', v') # d" by blast
  then show ?thesis using True by (simp add: seg_step_heading same_but_overview_def)
next
  case False
  then show ?thesis using assms by (auto simp: seg_step_body same_but_overview_def)
qed

lemma same_but_overview_fold:
  "same_but_overview st st' \<Longrightarrow> same_but_overview (foldl seg_step st ls) (foldl seg_step st' ls)"
  by (induction ls arbitrary: st st') (simp_all add: same_but_overview_step)

lemma same_but_overview_flush:
  assumes "same_but_overview st st'" "current_section st = ''overview''" "current_content st \<noteq> []"
  shows "save_section st = save_section st'"
  using assms by (auto simp: same_but_overview_def save_section_def)

lemma preamble_state:
  assumes "pre \<noteq> []" "list_all (\<lambda>line. \<not> is_heading line) pre" "is_heading t"
  shows "foldl seg_step seg_init (pre @ [t]) =
           \<lparr>sections = [(''overview'', join_lines pre)], current_section = section_name t 1,
            current_content = []\<rparr>"
  using assms
  by (simp add: no_heading_fold seg_step_heading save_section_def seg_init_def)

text \<open>The result of a recognized report type has one entry \<^verbatim>\<open>sections\<close>: the sections
  the mapper read.\<close>

lemma filter_zip_fresh: "k \<notin> set ks \<Longrightarrow> filter (\<lambda>entry. fst entry = k) (zip ks vs) = []"
  by (auto simp: filter_empty_conv dest: set_zip_leftD)

lemma sections_entries_branch:
  assumes "''sections'' \<notin> set (map fst flds)"
  shows "sections_entries (structured_branch flds t secs0) = [Dict (fallback_sections t secs0)]"
proof -
  from structured_branch_shape [OF assms] obtain vals where
    "structured_branch flds t secs0 =
       zip (map fst flds) (map Str vals) @ [(''sections'', Dict (fallback_sections t secs0))]"
    by blast
  then show ?thesis
    using assms by (simp add: sections_entries_def filter_zip_fresh)
qed

lemma sections_entries_result:
  assumes "t \<noteq> []" and "analysis_type \<in> {SYSTEM_ANALYSIS, DESTRUCTIVE_TESTING, PRR}"
  shows "sections_entries (parse_analysis_result t analysis_type) = [Dict (discovered_sections t)]"
proof -
  have s: "''sections'' \<notin> set (map fst system_analysis_fields)"
    by (simp add: system_analysis_fields_def)
  have d: "''sections'' \<notin> set (map fst destructive_testing_fields)"
    by (simp add: destructive_testing_fields_def)
  have p: "''sections'' \<notin> set (map fst prr_fields)"
    by (simp add: prr_fields_def)
  consider "analysis_type = SYSTEM_ANALYSIS" | "analysis_type = DESTRUCTIVE_TESTING"
    | "analysis_type = PRR"
    using assms(2) by blast
  then show ?thesis
  proof cases
    case 1
    then have "parse_analysis_result t analysis_type =
                 structured_branch system_analysis_fields t (line_sections t)"
      using assms(1) by (simp add: parse_analysis_result_def Let_def)
    then show ?thesis
      by (simp add: sections_entries_branch [OF s] discovered_sections_def)
  next
    case 2
    then have "parse_analysis_result t analysis_type =
                 structured_branch destructive_testing_fields t (line_sections t)"
      using assms(1) tags_distinct by (simp add: parse_analysis_result_def Let_def)
    then show ?thesis
      by (simp add: sections_entries_branch [OF d] discovered_sections_def)
  next
    case 3
    then have "parse_analysis_result t analysis_type =
                 structured_branch prr_fields t (line_sections t)"
      using assms(1) tags_distinct by (simp add: parse_analysis_result_def Let_def)
    then show ?thesis
      by (simp add: sections_entries_branch [OF p] discovered_sections_def)
  qed
qed

lemma only_entry:
  "distinct (map fst d) \<Longrightarrow> map_of d k = Some v \<Longrightarrow>
   filter (\<lambda>entry. fst entry = k) d = [(k, v)]"
proof (induction d)
  case Nil
  then show ?case by simp
next
  case (Cons p d)
  show ?case
  proof (cases "fst p = k")
    case True
    then have "p = (k, v)" using Cons.prems(2) by (cases p) simp
    moreover have "filter (\<lambda>entry. fst entry = k) d = []"
      using True Cons.prems(1) by (force simp: filter_empty_conv image_iff)
    ultimately show ?thesis by simp
  next
    case False
    then show ?thesis using Cons by (cases p) auto
  qed
qed

lemma long_text: "2 \<le> length (split_lines t) \<Longrightarrow> t \<noteq> []"
  by auto

text \<open>C10, as the code has it: let a text start with a non-empty preamble and hold, later,
  a heading that normalizes to \<^verbatim>\<open>overview\<close> and is followed by a non-empty body, and
  let the report type be one of the three. The mapping of the pass over the lines does not
  depend on the preamble: any other non-empty preamble before the same lines gives the
  same mapping; and when no later heading is given the name \<^verbatim>\<open>overview\<close>, its one
  entry of that name is the body of the heading. When the pass finds two sections or more,
  the returned \<^verbatim>\<open>sections\<close> are that mapping, for the text and for the text with the
  other preamble. When the pass finds one section, the returned \<^verbatim>\<open>sections\<close> are
  those of the keyword fallback over the whole text (lines 732 and 733, 761 and 762, 790
  and 791), the preamble included.\<close>

theorem preamble_overwritten:
  assumes "split_lines text = pre @ mid @ h # b @ rest"
    and "split_lines text' = pre' @ mid @ h # b @ rest"
    and "pre \<noteq> []" and "list_all (\<lambda>line. \<not> is_heading line) pre"
    and "pre' \<noteq> []" and "list_all (\<lambda>line. \<not> is_heading line) pre'"
    and "mid = [] \<or> is_heading (hd mid)"
    and "is_heading h" and "heading_name h = ''overview''"
    and "b \<noteq> []" and "list_all (\<lambda>line. \<not> is_heading line) b"
    and "rest = [] \<or> is_heading (hd rest)"
    and "analysis_type \<in> {SYSTEM_ANALYSIS, DESTRUCTIVE_TESTING, PRR}"
  shows "line_sections text = line_sections text'
         \<and> ((\<forall>line \<in> set rest. is_heading line \<longrightarrow> (\<forall>k. section_name line k \<noteq> ''overview'')) \<longrightarrow>
              filter (\<lambda>entry. fst entry = ''overview'') (line_sections text) =
                [(''overview'', join_lines b)])
         \<and> (1 < length (line_sections text) \<longrightarrow>
              sections_entries (parse_analysis_result text analysis_type) =
                [Dict (line_sections text)]
              \<and> sections_entries (parse_analysis_result text' analysis_type) =
                [Dict (line_sections text)])
         \<and> (length (line_sections text) \<le> 1 \<longrightarrow>
              sections_entries (parse_analysis_result text analysis_type) =
                [Dict (extract_sections_from_content text)])"
proof -
  obtain t ts where x: "mid @ [h] = t # ts" by (cases "mid @ [h]") auto
  have t: "is_heading t" using x assms(7,8) by (cases mid) auto
  define s where "s = foldl seg_step seg_init (pre @ mid @ [h])"
  define s' where "s' = foldl seg_step seg_init (pre' @ mid @ [h])"
  have a: "same_but_overview (foldl seg_step seg_init (pre @ [t])) (foldl seg_step seg_init (pre' @ [t]))"
    by (simp only: preamble_state [OF assms(3,4) t] preamble_state [OF assms(5,6) t])
       (simp add: same_but_overview_def)
  have "s = foldl seg_step (foldl seg_step seg_init (pre @ [t])) ts"
       "s' = foldl seg_step (foldl seg_step seg_init (pre' @ [t])) ts"
    using x by (simp_all add: s_def s'_def)
  then have r: "same_but_overview s s'"
    using same_but_overview_fold [OF a] by simp
  have "s = seg_step (foldl seg_step seg_init (pre @ mid)) h"
    by (simp add: s_def)
  then have cur: "current_section s = ''overview''" "current_content s = []"
    using assms(8,9) by (simp_all add: seg_step_heading section_name_nonempty)
  define u where "u = foldl seg_step s b"
  define u' where "u' = foldl seg_step s' b"
  have ru: "same_but_overview u u'"
    unfolding u_def u'_def using r by (rule same_but_overview_fold)
  have cu: "current_section u = ''overview''" "current_content u = b"
    using cur by (simp_all add: u_def no_heading_fold [OF assms(11)])
  have f: "foldl seg_step seg_init (split_lines text) = foldl seg_step u rest"
          "foldl seg_step seg_init (split_lines text') = foldl seg_step u' rest"
    by (simp_all add: assms(1,2) u_def u'_def s_def s'_def)
  have eq: "segment_lines (split_lines text) = segment_lines (split_lines text')"
  proof (cases rest)
    case Nil
    then show ?thesis
      using same_but_overview_flush [OF ru] cu assms(10) by (simp add: segment_lines_def f)
  next
    case (Cons r rs)
    then have "is_heading r" using assms(12) by simp
    then have "seg_step u r = seg_step u' r"
      using same_but_overview_flush [OF ru] cu assms(10) by (simp add: seg_step_heading)
    then show ?thesis by (simp add: segment_lines_def f Cons)
  qed
  have "same_but_overview (foldl seg_step u rest) (foldl seg_step u' rest)"
    using ru by (rule same_but_overview_fold)
  from same_but_overview_save [OF this] have "segment_lines (split_lines text) \<noteq> []"
    by (auto simp: segment_lines_def f)
  with eq have 1: "line_sections text = line_sections text'"
    by (simp add: line_sections_def Let_def)
  have 2: "filter (\<lambda>entry. fst entry = ''overview'') (line_sections text) =
             [(''overview'', join_lines b)]"
    if "\<forall>line \<in> set rest. is_heading line \<longrightarrow> (\<forall>k. section_name line k \<noteq> ''overview'')"
  proof -
    have "map_of (save_section (foldl seg_step u rest)) (current_section u) =
            Some (join_lines (current_content u))"
      using assms(10,12) that cu by (intro last_body_kept) simp_all
    then have seg: "map_of (segment_lines (split_lines text)) ''overview'' = Some (join_lines b)"
      by (simp add: segment_lines_def f cu)
    then have "segment_lines (split_lines text) \<noteq> []" by auto
    then have "line_sections text = segment_lines (split_lines text)"
      by (simp add: line_sections_def Let_def)
    with seg have "map_of (line_sections text) ''overview'' = Some (join_lines b)" by simp
    with distinct_line_sections show ?thesis by (rule only_entry)
  qed
  have ne: "text \<noteq> []" "text' \<noteq> []"
    using assms(1,2,3,5) by (auto intro!: long_text simp: Suc_le_eq)
  have e: "sections_entries (parse_analysis_result text analysis_type) =
             [Dict (discovered_sections text)]"
          "sections_entries (parse_analysis_result text' analysis_type) =
             [Dict (discovered_sections text')]"
    by (rule sections_entries_result [OF ne(1) assms(13)],
        rule sections_entries_result [OF ne(2) assms(13)])
  have 3: "sections_entries (parse_analysis_result text analysis_type) =
             [Dict (line_sections text)]
           \<and> sections_entries (parse_analysis_result text' analysis_type) =
             [Dict (line_sections text)]"
    if "1 < length (line_sections text)"
    using that e 1 by (simp add: discovered_sections_def fallback_sections_def)
  have 4: "sections_entries (parse_analysis_result text analysis_type) =
             [Dict (extract_sections_from_content text)]"
    if "length (line_sections text) \<le> 1"
    using that e by (simp add: discovered_sections_def fallback_sections_def)
  from 1 2 3 4 show ?thesis by blast
qed


text \<open>The theorem at two texts that differ in their preamble only and have a second
  section, and at a text whose only section is that of the heading \<^verbatim>\<open>OVERVIEW:\<close>.\<close>

theorem preamble_overwritten_witness:
  "line_sections ''intro\<newline>OVERVIEW:\<newline>body\<newline>SECURITY:\<newline>tls'' =
     line_sections ''other words\<newline>OVERVIEW:\<newline>body\<newline>SECURITY:\<newline>tls''
   \<and> filter (\<lambda>entry. fst entry = ''overview'')
       (line_sections ''intro\<newline>OVERVIEW:\<newline>body\<newline>SECURITY:\<newline>tls'') = [(''overview'', ''body'')]
   \<and> sections_entries (parse_analysis_result ''intro\<newline>OVERVIEW:\<newline>body\<newline>SECURITY:\<newline>tls'' SYSTEM_ANALYSIS) =
       [Dict [(''overview'', ''body''), (''security'', ''tls'')]]
   \<and> sections_entries (parse_analysis_result ''other words\<newline>OVERVIEW:\<newline>body\<newline>SECURITY:\<newline>tls'' SYSTEM_ANALYSIS) =
       [Dict [(''overview'', ''body''), (''security'', ''tls'')]]
   \<and> sections_entries (parse_analysis_result ''security\<newline>intro stuff\<newline>OVERVIEW:\<newline>body'' SYSTEM_ANALYSIS) =
       [Dict (extract_sections_from_content ''security\<newline>intro stuff\<newline>OVERVIEW:\<newline>body'')]"
proof -
  have sp: "split_lines ''intro\<newline>OVERVIEW:\<newline>body\<newline>SECURITY:\<newline>tls'' =
              [''intro''] @ [] @ ''OVERVIEW:'' # [''body''] @ [''SECURITY:'', ''tls'']"
    by code_simp
  have sp': "split_lines ''other words\<newline>OVERVIEW:\<newline>body\<newline>SECURITY:\<newline>tls'' =
              [''other words''] @ [] @ ''OVERVIEW:'' # [''body''] @ [''SECURITY:'', ''tls'']"
    by code_simp
  have p: "list_all (\<lambda>line. \<not> is_heading line) [''intro'']" by code_simp
  have p': "list_all (\<lambda>line. \<not> is_heading line) [''other words'']" by code_simp
  have h: "is_heading ''OVERVIEW:''" by code_simp
  have n: "heading_name ''OVERVIEW:'' = ''overview''" by code_simp
  have b: "list_all (\<lambda>line. \<not> is_heading line) [''body'']" by code_simp
  have hs: "is_heading ''SECURITY:''" by code_simp
  have ns: "heading_name ''SECURITY:'' = ''security''" by code_simp
  have nt: "\<not> is_heading ''tls''" by code_simp
  have ty: "SYSTEM_ANALYSIS \<in> {SYSTEM_ANALYSIS, DESTRUCTIVE_TESTING, PRR}" by simp
  have later: "\<forall>line \<in> set [''SECURITY:'', ''tls'']. is_heading line \<longrightarrow>
                 (\<forall>k. section_name line k \<noteq> ''overview'')"
    using ns nt by (simp add: section_name_def)
  have ls: "line_sections ''intro\<newline>OVERVIEW:\<newline>body\<newline>SECURITY:\<newline>tls'' =
              [(''overview'', ''body''), (''security'', ''tls'')]"
    by code_simp
  have two: "1 < length (line_sections ''intro\<newline>OVERVIEW:\<newline>body\<newline>SECURITY:\<newline>tls'')"
    unfolding ls by simp
  have "line_sections ''intro\<newline>OVERVIEW:\<newline>body\<newline>SECURITY:\<newline>tls'' =
          line_sections ''other words\<newline>OVERVIEW:\<newline>body\<newline>SECURITY:\<newline>tls''
        \<and> ((\<forall>line \<in> set [''SECURITY:'', ''tls'']. is_heading line \<longrightarrow>
                 (\<forall>k. section_name line k \<noteq> ''overview'')) \<longrightarrow>
            filter (\<lambda>entry. fst entry = ''overview'')
              (line_sections ''intro\<newline>OVERVIEW:\<newline>body\<newline>SECURITY:\<newline>tls'') =
              [(''overview'', join_lines [''body''])])
        \<and> (1 < length (line_sections ''intro\<newline>OVERVIEW:\<newline>body\<newline>SECURITY:\<newline>tls'') \<longrightarrow>
            sections_entries (parse_analysis_result ''intro\<newline>OVERVIEW:\<newline>body\<newline>SECURITY:\<newline>tls'' SYSTEM_ANALYSIS) =
              [Dict (line_sections ''intro\<newline>OVERVIEW:\<newline>body\<newline>SECURITY:\<newline>tls'')]
            \<and> sections_entries (parse_analysis_result ''other words\<newline>OVERVIEW:\<newline>body\<newline>SECURITY:\<newline>tls'' SYSTEM_ANALYSIS) =
              [Dict (line_sections ''intro\<newline>OVERVIEW:\<newline>body\<newline>SECURITY:\<newline>tls'')])
        \<and> (length (line_sections ''intro\<newline>OVERVIEW:\<newline>body\<newline>SECURITY:\<newline>tls'') \<le> 1 \<longrightarrow>
            sections_entries (parse_analysis_result ''intro\<newline>OVERVIEW:\<newline>body\<newline>SECURITY:\<newline>tls'' SYSTEM_ANALYSIS) =
              [Dict (extract_sections_from_content ''intro\<newline>OVERVIEW:\<newline>body\<newline>SECURITY:\<newline>tls'')])"
    by (rule preamble_overwritten [OF sp sp' _ p _ p' _ h n _ b _ ty]) (simp_all add: hs)
  then have e: "line_sections ''intro\<newline>OVERVIEW:\<newline>body\<newline>SECURITY:\<newline>tls'' =
          line_sections ''other words\<newline>OVERVIEW:\<newline>body\<newline>SECURITY:\<newline>tls''"
    and i: "(\<forall>line \<in> set [''SECURITY:'', ''tls'']. is_heading line \<longrightarrow>
                 (\<forall>k. section_name line k \<noteq> ''overview'')) \<longrightarrow>
            filter (\<lambda>entry. fst entry = ''overview'')
              (line_sections ''intro\<newline>OVERVIEW:\<newline>body\<newline>SECURITY:\<newline>tls'') =
              [(''overview'', join_lines [''body''])]"
    and j: "1 < length (line_sections ''intro\<newline>OVERVIEW:\<newline>body\<newline>SECURITY:\<newline>tls'') \<longrightarrow>
            sections_entries (parse_analysis_result ''intro\<newline>OVERVIEW:\<newline>body\<newline>SECURITY:\<newline>tls'' SYSTEM_ANALYSIS) =
              [Dict (line_sections ''intro\<newline>OVERVIEW:\<newline>body\<newline>SECURITY:\<newline>tls'')]
            \<and> sections_entries (parse_analysis_result ''other words\<newline>OVERVIEW:\<newline>body\<newline>SECURITY:\<newline>tls'' SYSTEM_ANALYSIS) =
              [Dict (line_sections ''intro\<newline>OVERVIEW:\<newline>body\<newline>SECURITY:\<newline>tls'')]"
    by (rule conjunct1, rule conjunct2 [THEN conjunct1],
        rule conjunct2 [THEN conjunct2, THEN conjunct1])
  from i later have
    "filter (\<lambda>entry. fst entry = ''overview'')
       (line_sections ''intro\<newline>OVERVIEW:\<newline>body\<newline>SECURITY:\<newline>tls'') =
     [(''overview'', join_lines [''body''])]"
    by (rule mp)
  then have m:
    "filter (\<lambda>entry. fst entry = ''overview'')
       (line_sections ''intro\<newline>OVERVIEW:\<newline>body\<newline>SECURITY:\<newline>tls'') = [(''overview'', ''body'')]"
    by simp
  from j two have
    "sections_entries (parse_analysis_result ''intro\<newline>OVERVIEW:\<newline>body\<newline>SECURITY:\<newline>tls'' SYSTEM_ANALYSIS) =
       [Dict (line_sections ''intro\<newline>OVERVIEW:\<newline>body\<newline>SECURITY:\<newline>tls'')]
     \<and> sections_entries (parse_analysis_result ''other words\<newline>OVERVIEW:\<newline>body\<newline>SECURITY:\<newline>tls'' SYSTEM_ANALYSIS) =
       [Dict (line_sections ''intro\<newline>OVERVIEW:\<newline>body\<newline>SECURITY:\<newline>tls'')]"
    by (rule mp)
  then have r:
    "sections_entries (parse_analysis_result ''intro\<newline>OVERVIEW:\<newline>body\<newline>SECURITY:\<newline>tls'' SYSTEM_ANALYSIS) =
       [Dict [(''overview'', ''body''), (''security'', ''tls'')]]"
    "sections_entries (parse_analysis_result ''other words\<newline>OVERVIEW:\<newline>body\<newline>SECURITY:\<newline>tls'' SYSTEM_ANALYSIS) =
       [Dict [(''overview'', ''body''), (''security'', ''tls'')]]"
    unfolding ls by (rule conjunct1, rule conjunct2)
  have sq: "split_lines ''security\<newline>intro stuff\<newline>OVERVIEW:\<newline>body'' =
              [''security'', ''intro stuff''] @ [] @ ''OVERVIEW:'' # [''body''] @ []"
    by code_simp
  have sq': "split_lines ''x\<newline>OVERVIEW:\<newline>body'' =
              [''x''] @ [] @ ''OVERVIEW:'' # [''body''] @ []"
    by code_simp
  have q: "list_all (\<lambda>line. \<not> is_heading line) [''security'', ''intro stuff'']" by code_simp
  have q': "list_all (\<lambda>line. \<not> is_heading line) [''x'']" by code_simp
  have lq: "line_sections ''security\<newline>intro stuff\<newline>OVERVIEW:\<newline>body'' = [(''overview'', ''body'')]"
    by code_simp
  have one: "length (line_sections ''security\<newline>intro stuff\<newline>OVERVIEW:\<newline>body'') \<le> 1"
    unfolding lq by simp
  have "line_sections ''security\<newline>intro stuff\<newline>OVERVIEW:\<newline>body'' =
          line_sections ''x\<newline>OVERVIEW:\<newline>body''
        \<and> ((\<forall>line \<in> set []. is_heading line \<longrightarrow>
                 (\<forall>k. section_name line k \<noteq> ''overview'')) \<longrightarrow>
            filter (\<lambda>entry. fst entry = ''overview'')
              (line_sections ''security\<newline>intro stuff\<newline>OVERVIEW:\<newline>body'') =
              [(''overview'', join_lines [''body''])])
        \<and> (1 < length (line_sections ''security\<newline>intro stuff\<newline>OVERVIEW:\<newline>body'') \<longrightarrow>
            sections_entries (parse_analysis_result ''security\<newline>intro stuff\<newline>OVERVIEW:\<newline>body'' SYSTEM_ANALYSIS) =
              [Dict (line_sections ''security\<newline>intro stuff\<newline>OVERVIEW:\<newline>body'')]
            \<and> sections_entries (parse_analysis_result ''x\<newline>OVERVIEW:\<newline>body'' SYSTEM_ANALYSIS) =
              [Dict (line_sections ''security\<newline>intro stuff\<newline>OVERVIEW:\<newline>body'')])
        \<and> (length (line_sections ''security\<newline>intro stuff\<newline>OVERVIEW:\<newline>body'') \<le> 1 \<longrightarrow>
            sections_entries (parse_analysis_result ''security\<newline>intro stuff\<newline>OVERVIEW:\<newline>body'' SYSTEM_ANALYSIS) =
              [Dict (extract_sections_from_content ''security\<newline>intro stuff\<newline>OVERVIEW:\<newline>body'')])"
    by (rule preamble_overwritten [OF sq sq' _ q _ q' _ h n _ b _ ty]) simp_all
  then have "length (line_sections ''security\<newline>intro stuff\<newline>OVERVIEW:\<newline>body'') \<le> 1 \<longrightarrow>
            sections_entries (parse_analysis_result ''security\<newline>intro stuff\<newline>OVERVIEW:\<newline>body'' SYSTEM_ANALYSIS) =
              [Dict (extract_sections_from_content ''security\<newline>intro stuff\<newline>OVERVIEW:\<newline>body'')]"
    by (rule conjunct2 [THEN conjunct2, THEN conjunct2])
  from this one have k:
    "sections_entries (parse_analysis_result ''security\<newline>intro stuff\<newline>OVERVIEW:\<newline>body'' SYSTEM_ANALYSIS) =
       [Dict (extract_sections_from_content ''security\<newline>intro stuff\<newline>OVERVIEW:\<newline>body'')]"
    by (rule mp)
  from e m r k show ?thesis by (intro conjI)
qed

text \<open>C10 as stated fails: the preamble of this text is the lines \<^verbatim>\<open>security\<close> and
  \<^verbatim>\<open>intro stuff\<close>, the heading \<^verbatim>\<open>OVERVIEW:\<close> normalizes to \<^verbatim>\<open>overview\<close> and is
  followed by the line \<^verbatim>\<open>body\<close>. The pass over the lines leaves one section, so lines
  732 and 733 replace the mapping by the keyword fallback's over the whole text: the
  returned \<^verbatim>\<open>sections\<close> have no key \<^verbatim>\<open>overview\<close>, and their one body holds the line
  \<^verbatim>\<open>intro stuff\<close> of the preamble.\<close>

theorem preamble_in_fallback_counterexample:
  "split_lines ''security\<newline>intro stuff\<newline>OVERVIEW:\<newline>body'' =
     [''security'', ''intro stuff''] @ ''OVERVIEW:'' # [''body'']
   \<and> \<not> is_heading ''security'' \<and> \<not> is_heading ''intro stuff''
   \<and> is_heading ''OVERVIEW:'' \<and> heading_name ''OVERVIEW:'' = ''overview''
   \<and> \<not> is_heading ''body''
   \<and> line_sections ''security\<newline>intro stuff\<newline>OVERVIEW:\<newline>body'' = [(''overview'', ''body'')]
   \<and> parse_analysis_result ''security\<newline>intro stuff\<newline>OVERVIEW:\<newline>body'' SYSTEM_ANALYSIS =
       [(''components'', Str []), (''reliability'', Str []), (''scalability'', Str []),
        (''security'', Str ''intro stuff\<newline>OVERVIEW:\<newline>body''),
        (''observability'', Str []), (''performance'', Str []),
        (''operational_complexity'', Str []), (''recommendations'', Str []),
        (''sections'', Dict [(''security'', ''intro stuff\<newline>OVERVIEW:\<newline>body'')])]"
proof -
  have 1: "split_lines ''security\<newline>intro stuff\<newline>OVERVIEW:\<newline>body'' =
             [''security'', ''intro stuff''] @ ''OVERVIEW:'' # [''body'']"
    by code_simp
  have 2: "\<not> is_heading ''security''" by code_simp
  have 3: "\<not> is_heading ''intro stuff''" by code_simp
  have 4: "is_heading ''OVERVIEW:''" by code_simp
  have 5: "heading_name ''OVERVIEW:'' = ''overview''" by code_simp
  have 6: "\<not> is_heading ''body''" by code_simp
  have 7: "line_sections ''security\<newline>intro stuff\<newline>OVERVIEW:\<newline>body'' = [(''overview'', ''body'')]"
    by code_simp
  have 8: "parse_analysis_result ''security\<newline>intro stuff\<newline>OVERVIEW:\<newline>body'' SYSTEM_ANALYSIS =
       [(''components'', Str []), (''reliability'', Str []), (''scalability'', Str []),
        (''security'', Str ''intro stuff\<newline>OVERVIEW:\<newline>body''),
        (''observability'', Str []), (''performance'', Str []),
        (''operational_complexity'', Str []), (''recommendations'', Str []),
        (''sections'', Dict [(''security'', ''intro stuff\<newline>OVERVIEW:\<newline>body'')])]"
    by code_simp
  from 1 2 3 4 5 6 7 8 show ?thesis by (intro conjI)
qed

subsection \<open>The count of the lines\<close>

lemma split_lines_no_newline: "l \<in> set (split_lines s) \<Longrightarrow> CHR 0x0A \<notin> set l"
proof (induction s arbitrary: l)
  case Nil
  then show ?case by simp
next
  case (Cons c cs)
  show ?case
  proof (cases "c = CHR 0x0A")
    case True
    then show ?thesis using Cons by auto
  next
    case False
    obtain m ms where sp: "split_lines cs = m # ms"
      using split_lines_not_Nil [of cs] by (cases "split_lines cs") auto
    then have "CHR 0x0A \<notin> set m" "\<And>x. x \<in> set ms \<Longrightarrow> CHR 0x0A \<notin> set x"
      using Cons.IH by auto
    then show ?thesis using Cons.prems False sp by auto
  qed
qed

lemma split_lines_line: "CHR 0x0A \<notin> set l \<Longrightarrow> split_lines l = [l]"
  by (induction l) auto

lemma split_lines_append:
  "CHR 0x0A \<notin> set l \<Longrightarrow> split_lines (l @ CHR 0x0A # s) = l # split_lines s"
  by (induction l) auto

lemma split_join_lines:
  "ls \<noteq> [] \<Longrightarrow> \<forall>l \<in> set ls. CHR 0x0A \<notin> set l \<Longrightarrow> split_lines (join_lines ls) = ls"
  by (induction ls rule: join_lines.induct) (simp_all add: split_lines_line split_lines_append)

lemma line_count_join:
  "ls \<noteq> [] \<Longrightarrow> \<forall>l \<in> set ls. CHR 0x0A \<notin> set l \<Longrightarrow> line_count (join_lines ls) = length ls"
  by (simp add: line_count_def split_join_lines)

lemma body_line_count_append:
  "body_line_count (d @ [(k, v)]) = body_line_count d + line_count v"
  by (simp add: body_line_count_def)

lemma save_section_count:
  assumes "current_section st \<notin> fst ` set (sections st)"
    and "\<forall>l \<in> set (current_content st). CHR 0x0A \<notin> set l"
  shows "body_line_count (save_section st) =
           body_line_count (sections st) + length (current_content st)"
  using assms
  by (simp add: save_section_def dict_set_fresh body_line_count_append line_count_join)

lemma save_section_keys:
  "fst ` set (save_section st) \<subseteq> insert (current_section st) (fst ` set (sections st))"
  by (auto simp: save_section_def keys_dict_set)

lemma conservation_from:
  assumes "distinct (map heading_name (filter is_heading ls))"
    and "\<forall>l \<in> set ls. is_heading l \<longrightarrow> heading_name l \<noteq> [] \<and>
           heading_name l \<notin> fst ` set (sections st) \<and> heading_name l \<noteq> current_section st"
    and "current_section st \<notin> fst ` set (sections st)"
    and "\<forall>l \<in> set ls \<union> set (current_content st). CHR 0x0A \<notin> set l"
  shows "body_line_count (save_section (foldl seg_step st ls)) + length (filter is_heading ls) =
           body_line_count (sections st) + length (current_content st) + length ls"
  using assms
proof (induction ls arbitrary: st)
  case Nil
  then show ?case by (simp add: save_section_count)
next
  case (Cons l ls)
  show ?case
  proof (cases "is_heading l")
    case False
    have "body_line_count (save_section (foldl seg_step (seg_step st l) ls))
            + length (filter is_heading ls) =
          body_line_count (sections (seg_step st l)) + length (current_content (seg_step st l))
            + length ls"
      using Cons.prems False by (intro Cons.IH) (auto simp: seg_step_body)
    then show ?thesis using False by (simp add: seg_step_body)
  next
    case True
    let ?st = "seg_step st l"
    have name: "current_section ?st = heading_name l"
      using True Cons.prems(2) by (simp add: seg_step_heading section_name_nonempty)
    have secs: "sections ?st = save_section st" and cont: "current_content ?st = []"
      using True by (simp_all add: seg_step_heading)
    have keys: "fst ` set (sections ?st) \<subseteq> insert (current_section st) (fst ` set (sections st))"
      unfolding secs by (rule save_section_keys)
    have fresh: "current_section ?st \<notin> fst ` set (sections ?st)"
      using keys Cons.prems(2) True unfolding name by auto
    have d: "distinct (map heading_name (filter is_heading ls))"
      using Cons.prems(1) True by simp
    have later: "\<forall>m \<in> set ls. is_heading m \<longrightarrow> heading_name m \<noteq> [] \<and>
           heading_name m \<notin> fst ` set (sections ?st) \<and> heading_name m \<noteq> current_section ?st"
    proof (intro ballI impI)
      fix m assume m: "m \<in> set ls" "is_heading m"
      then have "heading_name m \<in> set (map heading_name (filter is_heading ls))"
        by simp
      moreover have "heading_name l \<notin> set (map heading_name (filter is_heading ls))"
        using Cons.prems(1) True by simp
      ultimately have "heading_name m \<noteq> heading_name l"
        by metis
      moreover have "heading_name m \<noteq> [] \<and> heading_name m \<notin> fst ` set (sections st)
                     \<and> heading_name m \<noteq> current_section st"
        using Cons.prems(2) m by simp
      ultimately show "heading_name m \<noteq> [] \<and> heading_name m \<notin> fst ` set (sections ?st)
                       \<and> heading_name m \<noteq> current_section ?st"
        using keys name by auto
    qed
    have nl: "\<forall>m \<in> set ls \<union> set (current_content ?st). CHR 0x0A \<notin> set m"
      using Cons.prems(4) cont by simp
    have "body_line_count (save_section (foldl seg_step ?st ls)) + length (filter is_heading ls) =
            body_line_count (sections ?st) + length (current_content ?st) + length ls"
      using d later fresh nl by (rule Cons.IH)
    moreover have "body_line_count (sections ?st) =
                     body_line_count (sections st) + length (current_content st)"
      unfolding secs using Cons.prems(3,4) by (intro save_section_count) auto
    ultimately show ?thesis using True cont by simp
  qed
qed

text \<open>C1, as the code has it: when some line of the text is not a heading, and the
  headings normalize to names that are pairwise distinct, not empty and not
  \<^verbatim>\<open>overview\<close>, the lines of the bodies of the discovered mapping and the heading lines
  add up to the lines of the text.\<close>

theorem line_conservation:
  assumes "\<not> list_all is_heading (split_lines text)"
    and "distinct (map heading_name (filter is_heading (split_lines text)))"
    and "list_all (\<lambda>line. heading_name line \<noteq> [] \<and> heading_name line \<noteq> ''overview'')
           (filter is_heading (split_lines text))"
  shows "body_line_count (line_sections text) + length (filter is_heading (split_lines text)) =
           length (split_lines text)"
proof -
  let ?ls = "split_lines text"
  have eq: "body_line_count (segment_lines ?ls) + length (filter is_heading ?ls) = length ?ls"
    using conservation_from [of ?ls seg_init] assms(2,3) split_lines_no_newline [of _ "text"]
    by (auto simp: segment_lines_def seg_init_def list_all_iff body_line_count_def)
  have "length (filter is_heading ?ls) < length ?ls"
    using assms(1) by (metis length_filter_less list_all_iff)
  with eq have "body_line_count (segment_lines ?ls) > 0" by linarith
  then have "segment_lines ?ls \<noteq> []" by (auto simp: body_line_count_def)
  then have "line_sections text = segment_lines ?ls"
    by (simp add: line_sections_def Let_def)
  with eq show ?thesis by simp
qed

text \<open>The theorem at a text with a preamble and two sections.\<close>

theorem line_conservation_witness:
  "body_line_count (line_sections ''intro\<newline># A\<newline>foo\<newline>bar\<newline># B\<newline>baz'')
     + length (filter is_heading (split_lines ''intro\<newline># A\<newline>foo\<newline>bar\<newline># B\<newline>baz''))
   = length (split_lines ''intro\<newline># A\<newline>foo\<newline>bar\<newline># B\<newline>baz'')"
proof -
  have 1: "\<not> list_all is_heading (split_lines ''intro\<newline># A\<newline>foo\<newline>bar\<newline># B\<newline>baz'')"
    by code_simp
  have 2: "distinct (map heading_name (filter is_heading
             (split_lines ''intro\<newline># A\<newline>foo\<newline>bar\<newline># B\<newline>baz'')))"
    by code_simp
  have 3: "list_all (\<lambda>line. heading_name line \<noteq> [] \<and> heading_name line \<noteq> ''overview'')
             (filter is_heading (split_lines ''intro\<newline># A\<newline>foo\<newline>bar\<newline># B\<newline>baz''))"
    by code_simp
  show ?thesis by (rule line_conservation [OF 1 2 3])
qed

text \<open>C1 as stated fails: the heading \<^verbatim>\<open># A\<close> occurs twice, the second body replaces
  the first, and one of the four lines is in no body and is no heading.\<close>

theorem line_conservation_counterexample:
  "body_line_count (line_sections ''# A\<newline>foo\<newline># A\<newline>bar'') = 1
   \<and> length (filter is_heading (split_lines ''# A\<newline>foo\<newline># A\<newline>bar'')) = 2
   \<and> length (split_lines ''# A\<newline>foo\<newline># A\<newline>bar'') = 4"
  by code_simp

end
